theory Spec2Isabelle
  imports Main "HOL-Library.AList" "HOL-Library.Code_Target_Nat"
begin

section \<open>Formula translator (mapMatomoFormulaToLooker, toLookerString)\<close>

subsection \<open>Expression tree\<close>

text \<open>
  The nodes are the node classes of the expression parser the translator imports. The
  fields kept are the ones the translator or the parser's traversal reads:
  an accessor's \<open>object\<close> and the \<open>dimensions\<close> of its index, an operator's
  symbol \<open>op\<close>, its function name \<open>fn\<close> and its \<open>args\<close>, an assignment's
  \<open>object\<close>, the dimensions of its index (none when it has no index) and its
  \<open>value\<close>, a range's \<open>start\<close>, \<open>end\<close> and \<open>step\<close> when it has one, a relational
  node's \<open>conditionals\<close> and \<open>params\<close>, a function call's callee name
  (\<open>fn.name\<close>) and its \<open>args\<close>. A constant's value is a string or something
  else (a number, a boolean, null), kept as its source text.
\<close>

datatype constval = CString string | COther string

datatype MathNode =
    AccessorNode MathNode "MathNode list"
  | ArrayNode "MathNode list"
  | AssignmentNode MathNode "MathNode list" MathNode
  | BlockNode "MathNode list"
  | ConditionalNode MathNode MathNode MathNode
  | ConstantNode constval
  | FunctionAssignmentNode string "string list" MathNode
  | FunctionNode string "MathNode list"
  | IndexNode "MathNode list"
  | ObjectNode "string list" "MathNode list"
  | OperatorNode string string "MathNode list"
  | ParenthesisNode MathNode
  | RangeNode "MathNode list"
  | RelationalNode "string list" "MathNode list"
  | SymbolNode string

text \<open>The \<open>type\<close> property of a node: the name of its class, a string.\<close>

fun nodeType :: "MathNode \<Rightarrow> string" where
  "nodeType (AccessorNode obj dims) = ''AccessorNode''"
| "nodeType (ArrayNode items) = ''ArrayNode''"
| "nodeType (AssignmentNode obj dims v) = ''AssignmentNode''"
| "nodeType (BlockNode blocks) = ''BlockNode''"
| "nodeType (ConditionalNode c t f) = ''ConditionalNode''"
| "nodeType (ConstantNode v) = ''ConstantNode''"
| "nodeType (FunctionAssignmentNode n ps e) = ''FunctionAssignmentNode''"
| "nodeType (FunctionNode n args) = ''FunctionNode''"
| "nodeType (IndexNode dims) = ''IndexNode''"
| "nodeType (ObjectNode ks vs) = ''ObjectNode''"
| "nodeType (OperatorNode opr fn args) = ''OperatorNode''"
| "nodeType (ParenthesisNode c) = ''ParenthesisNode''"
| "nodeType (RangeNode parts) = ''RangeNode''"
| "nodeType (RelationalNode conds params) = ''RelationalNode''"
| "nodeType (SymbolNode n) = ''SymbolNode''"

subsection \<open>What the JavaScript runtime and the parser library contribute\<close>

text \<open>
  \<open>nodeToString\<close> is the library's \<open>toString()\<close> of a node, and \<open>inheritedText\<close>
  is the text the runtime gives a property value that an object literal inherits from
  \<open>Object.prototype\<close> when the value is put into a string. Both are parameters of the
  translator: their text is not the repository's.
\<close>

record jslib =
  nodeToString :: "MathNode \<Rightarrow> string"
  inheritedText :: "string \<Rightarrow> string"

text \<open>
  A property read \<open>obj[key]\<close> on an object literal finds the literal's own entries and,
  for the names below, the properties every object inherits from \<open>Object.prototype\<close>
  (functions, and for \<open>__proto__\<close> an object).
\<close>

definition objectPrototypeProperties :: "string list" where
  "objectPrototypeProperties =
     [''constructor'', ''hasOwnProperty'', ''isPrototypeOf'', ''propertyIsEnumerable'',
      ''toLocaleString'', ''toString'', ''valueOf'', ''__proto__'',
      ''__defineGetter__'', ''__defineSetter__'', ''__lookupGetter__'', ''__lookupSetter__'']"

datatype jsprop = OwnValue string | InheritedValue string | Undefined

definition getProperty :: "(string \<times> string) list \<Rightarrow> string \<Rightarrow> jsprop" where
  "getProperty obj k =
     (case map_of obj k of
        Some v \<Rightarrow> OwnValue v
      | None \<Rightarrow> if k \<in> set objectPrototypeProperties then InheritedValue k else Undefined)"

text \<open>Truthiness: a string is truthy unless empty, a function or object is, undefined is not.\<close>

fun truthy :: "jsprop \<Rightarrow> bool" where
  "truthy (OwnValue v) = (v \<noteq> [])"
| "truthy (InheritedValue k) = True"
| "truthy Undefined = False"

text \<open>The text of a property value inside a template literal or a string concatenation.\<close>

fun propText :: "jslib \<Rightarrow> jsprop \<Rightarrow> string" where
  "propText L (OwnValue v) = v"
| "propText L (InheritedValue k) = inheritedText L k"
| "propText L Undefined = ''undefined''"

text \<open>
  \<open>(accessor.object.type as SymbolNode).name\<close> reads the property \<open>name\<close> of the
  string \<open>accessor.object.type\<close>. A string has no such property: the read gives
  undefined, whatever the string is.
\<close>

definition nameOfTypeString :: "string \<Rightarrow> string option" where
  "nameOfTypeString t = None"

text \<open>\<open>Array.prototype.join\<close>.\<close>

fun join :: "string \<Rightarrow> string list \<Rightarrow> string" where
  "join sep [] = []"
| "join sep [x] = x"
| "join sep (x # y # ys) = x @ sep @ join sep (y # ys)"

text \<open>
  \<open>value.match(/^idgoal=(\d+)$/)\<close>: \<open>None\<close> is the null of a failed match,
  \<open>Some g\<close> the match array with \<open>g\<close> its element 1, the captured digits.
\<close>

definition isDigit :: "char \<Rightarrow> bool" where
  "isDigit c = (c \<in> set ''0123456789'')"

definition matchIdgoal :: "string \<Rightarrow> string option option" where
  "matchIdgoal s =
     (if take 7 s = ''idgoal='' \<and> drop 7 s \<noteq> [] \<and> list_all isDigit (drop 7 s)
      then Some (Some (drop 7 s)) else None)"

subsection \<open>toLookerString\<close>

datatype translateError =
    InvalidAccessor MathNode
  | InvalidGoalIndex MathNode
  | CouldNotExtractGoalId MathNode
  | UnknownFunction string
  | DisallowedNode string MathNode
  | UnexpectedIndexNode MathNode
  | ParseFailure string string
  | JsTypeError

definition SUPPORTED_FUNCTIONS :: "(string \<times> string) list" where
  "SUPPORTED_FUNCTIONS = [(''min'', ''NARY_MIN''), (''max'', ''NARY_MAX''), (''abs'', ''ABS'')]"

definition OperatorNodeMap :: "(string \<times> string) list" where
  "OperatorNodeMap =
     [(''xor'', ''xor''), (''and'', ''and''), (''or'', ''or''), (''bitOr'', ''|''),
      (''bitXor'', ''^|''), (''bitAnd'', ''&''), (''equal'', ''==''), (''unequal'', ''!=''),
      (''smaller'', ''<''), (''larger'', ''>''), (''smallerEq'', ''<=''),
      (''largerEq'', ''>=''), (''leftShift'', ''<<''), (''rightArithShift'', ''>>''),
      (''rightLogShift'', ''>>>''), (''to'', ''to''), (''add'', ''+''), (''subtract'', ''-''),
      (''multiply'', ''*''), (''divide'', ''/''), (''dotMultiply'', ''.*''),
      (''dotDivide'', ''./''), (''mod'', ''mod''), (''unaryPlus'', ''+''),
      (''unaryMinus'', ''-''), (''bitNot'', ''~''), (''not'', ''not''), (''pow'', ''^''),
      (''dotPow'', ''.^''), (''factorial'', ''!'')]"

text \<open>
  The second index dimension inside the template literal of the accessor branch:
  \<open>dimensions[1]\<close> is a node, printed by its \<open>toString()\<close>, or undefined.
\<close>

definition secondDimText :: "jslib \<Rightarrow> MathNode list \<Rightarrow> string" where
  "secondDimText L dims = (if 1 < length dims then nodeToString L (dims ! 1) else ''undefined'')"

text \<open>
  The accessor branch once the first check has passed (\<open>dims\<close> are the index
  dimensions): \<open>dimensions[0].type\<close> on an empty list and \<open>.match\<close> on a value
  that is not a string, or element 1 of a null match, raise a TypeError.
\<close>

definition goalAccessor :: "jslib \<Rightarrow> MathNode \<Rightarrow> MathNode list \<Rightarrow> translateError + string" where
  "goalAccessor L accessor dims =
     (case dims of
        [] \<Rightarrow> Inl JsTypeError
      | idgoalIndex # rest \<Rightarrow>
          (case idgoalIndex of
             ConstantNode v \<Rightarrow>
               (case v of
                  COther t \<Rightarrow> Inl JsTypeError
                | CString s \<Rightarrow>
                    (case matchIdgoal s of
                       None \<Rightarrow> Inl JsTypeError
                     | Some None \<Rightarrow> Inl (CouldNotExtractGoalId accessor)
                     | Some (Some idgoal) \<Rightarrow>
                         Inr (''$goals_'' @ idgoal @ ''_'' @ secondDimText L dims)))
           | _ \<Rightarrow> Inl (InvalidGoalIndex accessor)))"

text \<open>
  The translator. A thrown Error is \<open>Inl\<close>. \<open>toLookerStrings\<close> is
  \<open>args.map(toLookerString)\<close>: the first operand that throws ends the call.
  \<open>relationalTail\<close> is the \<open>forEach\<close> over the conditionals of a relational
  node, \<open>ps\<close> being \<open>params\<close> from index \<open>i + 1\<close> on; a missing operand is
  undefined, for which \<open>toLookerString\<close> returns the empty string.
  The node classes are all listed, so the \<open>default\<close> branch of the source (unknown
  node) has no node to apply to.
\<close>

fun toLookerString :: "jslib \<Rightarrow> MathNode \<Rightarrow> translateError + string"
  and toLookerStrings :: "jslib \<Rightarrow> MathNode list \<Rightarrow> translateError + string list"
  and relationalTail :: "jslib \<Rightarrow> string list \<Rightarrow> MathNode list \<Rightarrow> string \<Rightarrow> translateError + string"
where
  "toLookerString L (AccessorNode obj dims) =
     (if nodeType obj \<noteq> ''SymbolNode''
         \<or> nameOfTypeString (nodeType obj) \<noteq> Some ''$goals''
         \<or> length dims > 1
      then Inl (InvalidAccessor (AccessorNode obj dims))
      else goalAccessor L (AccessorNode obj dims) dims)"
| "toLookerString L (ConditionalNode c t f) =
     (case toLookerString L c of Inl e \<Rightarrow> Inl e | Inr cs \<Rightarrow>
      (case toLookerString L t of Inl e \<Rightarrow> Inl e | Inr ts \<Rightarrow>
       (case toLookerString L f of Inl e \<Rightarrow> Inl e | Inr fs \<Rightarrow>
          Inr (''IF('' @ cs @ '', '' @ ts @ '', '' @ fs @ '')''))))"
| "toLookerString L (OperatorNode opr fn args) =
     (case toLookerStrings L args of Inl e \<Rightarrow> Inl e
      | Inr strs \<Rightarrow> Inr (join ('' '' @ opr @ '' '') strs))"
| "toLookerString L (ParenthesisNode content) =
     (case toLookerString L content of Inl e \<Rightarrow> Inl e
      | Inr s \<Rightarrow> Inr (''('' @ s @ '')''))"
| "toLookerString L (RelationalNode conditionals params) =
     (case params of
        [] \<Rightarrow> relationalTail L conditionals [] []
      | p # ps \<Rightarrow>
          (case toLookerString L p of Inl e \<Rightarrow> Inl e
           | Inr s \<Rightarrow> relationalTail L conditionals ps s))"
| "toLookerString L (ConstantNode v) = Inr (nodeToString L (ConstantNode v))"
| "toLookerString L (SymbolNode n) = Inr (nodeToString L (SymbolNode n))"
| "toLookerString L (FunctionNode n args) =
     (if \<not> truthy (getProperty SUPPORTED_FUNCTIONS n) then Inl (UnknownFunction n)
      else Inr (nodeToString L
                  (FunctionNode (propText L (getProperty SUPPORTED_FUNCTIONS n)) args)))"
| "toLookerString L (ArrayNode items) = Inl (DisallowedNode ''ArrayNode'' (ArrayNode items))"
| "toLookerString L (AssignmentNode obj dims v) =
     Inl (DisallowedNode ''AssignmentNode'' (AssignmentNode obj dims v))"
| "toLookerString L (BlockNode blocks) = Inl (DisallowedNode ''BlockNode'' (BlockNode blocks))"
| "toLookerString L (RangeNode parts) = Inl (DisallowedNode ''RangeNode'' (RangeNode parts))"
| "toLookerString L (ObjectNode ks vs) = Inl (DisallowedNode ''ObjectNode'' (ObjectNode ks vs))"
| "toLookerString L (FunctionAssignmentNode n ps e) =
     Inl (DisallowedNode ''FunctionAssignmentNode'' (FunctionAssignmentNode n ps e))"
| "toLookerString L (IndexNode dims) = Inl (UnexpectedIndexNode (IndexNode dims))"
| "toLookerStrings L [] = Inr []"
| "toLookerStrings L (a # as) =
     (case toLookerString L a of Inl e \<Rightarrow> Inl e | Inr s \<Rightarrow>
      (case toLookerStrings L as of Inl e \<Rightarrow> Inl e | Inr ss \<Rightarrow> Inr (s # ss)))"
| "relationalTail L [] ps acc = Inr acc"
| "relationalTail L (cond # conds) [] acc =
     relationalTail L conds []
       (acc @ '' '' @ propText L (getProperty OperatorNodeMap cond) @ '' '' @ [])"
| "relationalTail L (cond # conds) (p # ps) acc =
     (case toLookerString L p of Inl e \<Rightarrow> Inl e
      | Inr s \<Rightarrow>
          relationalTail L conds ps
            (acc @ '' '' @ propText L (getProperty OperatorNodeMap cond) @ '' '' @ s))"

subsection \<open>mapMatomoFormulaToLooker\<close>

text \<open>
  The library's \<open>traverse\<close> calls the callback on a node and then, for each child in
  the order of the node's \<open>forEach\<close>, traverses the child. The list below is the
  sequence of nodes the callback is called on. The index of an accessor or assignment
  is an IndexNode, and the callee of a function call is a SymbolNode; both are visited.
\<close>

fun traverseNodes :: "MathNode \<Rightarrow> MathNode list" where
  "traverseNodes (AccessorNode obj dims) =
     AccessorNode obj dims # traverseNodes obj @ IndexNode dims # concat (map traverseNodes dims)"
| "traverseNodes (ArrayNode items) = ArrayNode items # concat (map traverseNodes items)"
| "traverseNodes (AssignmentNode obj dims v) =
     AssignmentNode obj dims v # traverseNodes obj
       @ (if dims = [] then [] else IndexNode dims # concat (map traverseNodes dims))
       @ traverseNodes v"
| "traverseNodes (BlockNode blocks) = BlockNode blocks # concat (map traverseNodes blocks)"
| "traverseNodes (ConditionalNode c t f) =
     ConditionalNode c t f # traverseNodes c @ traverseNodes t @ traverseNodes f"
| "traverseNodes (ConstantNode v) = [ConstantNode v]"
| "traverseNodes (FunctionAssignmentNode n ps e) = FunctionAssignmentNode n ps e # traverseNodes e"
| "traverseNodes (FunctionNode n args) =
     FunctionNode n args # SymbolNode n # concat (map traverseNodes args)"
| "traverseNodes (IndexNode dims) = IndexNode dims # concat (map traverseNodes dims)"
| "traverseNodes (ObjectNode ks vs) = ObjectNode ks vs # concat (map traverseNodes vs)"
| "traverseNodes (OperatorNode opr fn args) =
     OperatorNode opr fn args # concat (map traverseNodes args)"
| "traverseNodes (ParenthesisNode content) = ParenthesisNode content # traverseNodes content"
| "traverseNodes (RangeNode parts) = RangeNode parts # concat (map traverseNodes parts)"
| "traverseNodes (RelationalNode conds params) =
     RelationalNode conds params # concat (map traverseNodes params)"
| "traverseNodes (SymbolNode n) = [SymbolNode n]"

text \<open>
  The callback of the traversal: a SymbolNode whose name starts with \<open>$\<close> pushes the
  name without its first character onto \<open>temporaryMetrics\<close>.
\<close>

definition pushMetric :: "string list \<Rightarrow> MathNode \<Rightarrow> string list" where
  "pushMetric tm node =
     (case node of
        SymbolNode name \<Rightarrow> if take 1 name = ''$'' then tm @ [drop 1 name] else tm
      | _ \<Rightarrow> tm)"

record translation =
  lookerFormula :: "string option"
  temporaryMetrics :: "string list"

text \<open>
  \<open>parse\<close> is the library's parser (\<open>Inl\<close> its diagnostic when it throws). The
  formula is optional; undefined and the empty string are both falsy.
\<close>

definition mapMatomoFormulaToLooker ::
  "(string \<Rightarrow> string + MathNode) \<Rightarrow> jslib \<Rightarrow> string option \<Rightarrow> translateError + translation" where
  "mapMatomoFormulaToLooker parse L formula =
     (case formula of
        None \<Rightarrow> Inr \<lparr>lookerFormula = None, temporaryMetrics = []\<rparr>
      | Some f \<Rightarrow>
          if f = [] then Inr \<lparr>lookerFormula = None, temporaryMetrics = []\<rparr>
          else
            (case parse f of
               Inl diagnostic \<Rightarrow> Inl (ParseFailure f diagnostic)
             | Inr ast \<Rightarrow>
                 (let tm = foldl pushMetric [] (traverseNodes ast) in
                  case toLookerString L ast of
                    Inl e \<Rightarrow> Inl e
                  | Inr s \<Rightarrow> Inr \<lparr>lookerFormula = Some s, temporaryMetrics = tm\<rparr>)))"

subsection \<open>The formulas of the examples\<close>

text \<open>
  The trees the library's grammar gives the formulas used below: indexing binds to the
  left, so \<open>$goals["idgoal=3"]["revenue"]\<close> is an accessor whose object is the
  accessor \<open>$goals["idgoal=3"]\<close>; a prefix minus is an operator node with one operand.
\<close>

definition goalsRevenueAst :: MathNode where
  "goalsRevenueAst =
     AccessorNode
       (AccessorNode (SymbolNode ''$goals'') [ConstantNode (CString ''idgoal=3'')])
       [ConstantNode (CString ''revenue'')]"

definition parseExamples :: "string \<Rightarrow> string + MathNode" where
  \<open>parseExamples f =
     (if f = ''$goals["idgoal=3"]["revenue"]'' then Inr goalsRevenueAst
      else if f = ''$goals["idgoal=3"]'' then
        Inr (AccessorNode (SymbolNode ''$goals'') [ConstantNode (CString ''idgoal=3'')])
      else if f = ''$a + $a'' then
        Inr (OperatorNode ''+'' ''add'' [SymbolNode ''$a'', SymbolNode ''$a''])
      else if f = ''-$a'' then
        Inr (OperatorNode ''-'' ''unaryMinus'' [SymbolNode ''$a''])
      else if f = ''$a - $b'' then
        Inr (OperatorNode ''-'' ''subtract'' [SymbolNode ''$a'', SymbolNode ''$b''])
      else if f = ''min($a, $b)'' then
        Inr (FunctionNode ''min'' [SymbolNode ''$a'', SymbolNode ''$b''])
      else if f = ''toString($a)'' then
        Inr (FunctionNode ''toString'' [SymbolNode ''$a''])
      else if f = ''sqrt($a)'' then
        Inr (FunctionNode ''sqrt'' [SymbolNode ''$a''])
      else Inl ''SyntaxError'')\<close>

text \<open>
  The library's \<open>toString()\<close> on the node classes of the examples: a symbol prints its
  name, a string constant prints in double quotes, a call prints the callee, then its
  arguments separated by a comma and a space. No example prints another class; those
  print as the empty text here.
\<close>

fun printNode :: "MathNode \<Rightarrow> string" where
  "printNode (SymbolNode n) = n"
| "printNode (ConstantNode (CString s)) = [CHR 0x22] @ s @ [CHR 0x22]"
| "printNode (ConstantNode (COther t)) = t"
| "printNode (FunctionNode n args) = n @ ''('' @ join '', '' (map printNode args) @ '')''"
| "printNode other = []"

definition exampleLib :: jslib where
  "exampleLib =
     \<lparr>nodeToString = printNode,
      inheritedText = (\<lambda>k. ''function '' @ k @ ''() { [native code] }'')\<rparr>"

text \<open>
  The number of SymbolNodes named \<open>name\<close> in a tree, the callee of a function call
  included: what "the symbol occurs at several places" counts.
\<close>

fun occurrences :: "string \<Rightarrow> MathNode \<Rightarrow> nat" where
  "occurrences name (AccessorNode obj dims) =
     occurrences name obj + sum_list (map (occurrences name) dims)"
| "occurrences name (ArrayNode items) = sum_list (map (occurrences name) items)"
| "occurrences name (AssignmentNode obj dims v) =
     occurrences name obj + sum_list (map (occurrences name) dims) + occurrences name v"
| "occurrences name (BlockNode blocks) = sum_list (map (occurrences name) blocks)"
| "occurrences name (ConditionalNode c t f) =
     occurrences name c + occurrences name t + occurrences name f"
| "occurrences name (ConstantNode v) = 0"
| "occurrences name (FunctionAssignmentNode n ps e) = occurrences name e"
| "occurrences name (FunctionNode n args) =
     (if n = name then 1 else 0) + sum_list (map (occurrences name) args)"
| "occurrences name (IndexNode dims) = sum_list (map (occurrences name) dims)"
| "occurrences name (ObjectNode ks vs) = sum_list (map (occurrences name) vs)"
| "occurrences name (OperatorNode opr fn args) = sum_list (map (occurrences name) args)"
| "occurrences name (ParenthesisNode content) = occurrences name content"
| "occurrences name (RangeNode parts) = sum_list (map (occurrences name) parts)"
| "occurrences name (RelationalNode conds params) = sum_list (map (occurrences name) params)"
| "occurrences name (SymbolNode n) = (if n = name then 1 else 0)"

section \<open>Batch request dispatcher (fetchAll)\<close>

subsection \<open>Values, requests and options\<close>

text \<open>
  A decoded payload is a JSON value. A number is kept as the text JavaScript prints for
  it. An entry of the response array is \<open>Some\<close> payload, or \<open>None\<close> where the
  array has a hole (an index below the array's length that was never written).
\<close>

datatype json =
    JNull
  | JBool bool
  | JNum string
  | JStr string
  | JArr "json list"
  | JObj "(string \<times> json) list"

text \<open>
  A property read \<open>v.result\<close> or \<open>v.message\<close> on a value that is not null: an object
  gives its entry, every other value gives undefined. (Reading a property of null throws;
  the callers below check for null first where the source reads one.)
\<close>

fun getField :: "json \<Rightarrow> string \<Rightarrow> json option" where
  "getField (JObj entries) k = map_of entries k"
| "getField other k = None"

text \<open>The text of a value where the source uses it as a string (\<open>RegExp.test\<close>).\<close>

fun jsString :: "json \<Rightarrow> string" where
  "jsString JNull = ''null''"
| "jsString (JBool b) = (if b then ''true'' else ''false'')"
| "jsString (JNum t) = t"
| "jsString (JStr s) = s"
| "jsString (JArr items) =
     join '','' (map (\<lambda>v. if v = JNull then [] else jsString v) items)"
| "jsString (JObj entries) = ''[object Object]''"

definition messageText :: "json option \<Rightarrow> string" where
  "messageText m = (case m of None \<Rightarrow> ''undefined'' | Some v \<Rightarrow> jsString v)"

record request =
  reqMethod :: string
  reqParams :: "(string \<times> string) list option"

record ApiFetchOptions =
  instanceUrl :: "string option"
  token :: "string option"
  cacheKey :: "string option"
  cacheTtl :: "int option"
  checkRuntimeLimit :: bool
  runtimeLimitAbortMessage :: "string option"
  throwOnFailedRequest :: bool

text \<open>
  The values read from the environment at load time. \<open>parseInt\<close> gives an integer or
  NaN (\<open>None\<close>); \<open>parseInt(...) || 0\<close> turns NaN into 0.
  \<open>API_REQUEST_EXTRA_HEADERS\<close> holds the entries of the object decoded from the
  environment, none when the decoding throws.
\<close>

record config =
  envScriptRuntimeLimit :: "int option"
  envApiRequestRetryLimitInSecs :: "int option"
  API_REQUEST_SOURCE_IDENTIFIER :: string
  API_REQUEST_EXTRA_HEADERS :: "(string \<times> string) list"

definition orZero :: "int option \<Rightarrow> int" where
  "orZero parsed = (case parsed of None \<Rightarrow> 0 | Some n \<Rightarrow> if n = 0 then 0 else n)"

definition SCRIPT_RUNTIME_LIMIT :: "config \<Rightarrow> int" where
  "SCRIPT_RUNTIME_LIMIT C = orZero (envScriptRuntimeLimit C)"

definition API_REQUEST_RETRY_LIMIT_IN_SECS :: "config \<Rightarrow> int" where
  "API_REQUEST_RETRY_LIMIT_IN_SECS C = orZero (envApiRequestRetryLimitInSecs C)"

definition MAX_WAIT_BEFORE_RETRY :: nat where
  "MAX_WAIT_BEFORE_RETRY = 32"

definition FETCH_USER_AGENT :: string where
  "FETCH_USER_AGENT =
     ''Mozilla/5.0 (X11; Ubuntu; Linux x86_64; rv:130.0) Gecko/20100101 Firefox/130.0''"

subsection \<open>Collaborators\<close>

text \<open>
  The services the dispatcher calls. \<open>cacheGet\<close> is the user cache's \<open>get\<close> (null is
  \<open>None\<close>) and \<open>cachePutThrows key text ttl\<close> says whether its \<open>put\<close> throws;
  \<open>userUrl\<close> and \<open>userToken\<close> are the stored user properties; \<open>jsonParse\<close> is
  \<open>JSON.parse\<close> (\<open>None\<close> when it throws) and \<open>jsonStringify\<close> is
  \<open>JSON.stringify\<close> of the response array (\<open>None\<close> when it throws);
  \<open>encodeURIComponent\<close> and \<open>decodeURIComponent\<close> are the runtime's (\<open>None\<close> when
  they throw their \<open>URIError\<close>: a lone surrogate for the first, a malformed escape
  sequence for the second) and \<open>base64Encode\<close> is \<open>Utilities.base64Encode\<close>.
  The outbound batch fetch of round \<open>r\<close> (rounds counted from 0) either throws, with the
  message \<open>fetchThrows r batch\<close>, or answers every request of the batch, the request
  \<open>q\<close> getting the status code and body \<open>respond r q\<close>; it takes
  \<open>fetchDuration r\<close> milliseconds. \<open>scriptElapsedAt\<close> is \<open>getScriptElapsedTime\<close>
  (module \<open>./connector\<close>), the elapsed execution time the caller tracks, as a function
  of the clock.
\<close>

record URLFetchRequest =
  url :: string
  headers :: "(string \<times> string) list"
  httpMethod :: string
  payload :: string
  muteHttpExceptions :: bool
  wholeUrl :: string

record services =
  cacheGet :: "string \<Rightarrow> string option"
  cachePutThrows :: "string \<Rightarrow> string \<Rightarrow> int \<Rightarrow> bool"
  userUrl :: "string option"
  userToken :: "string option"
  jsonParse :: "string \<Rightarrow> json option"
  jsonStringify :: "json option list \<Rightarrow> string option"
  encodeURIComponent :: "string \<Rightarrow> string option"
  decodeURIComponent :: "string \<Rightarrow> string option"
  base64Encode :: "string \<Rightarrow> string"
  fetchThrows :: "nat \<Rightarrow> URLFetchRequest list \<Rightarrow> string option"
  respond :: "nat \<Rightarrow> URLFetchRequest \<Rightarrow> int \<times> string"
  fetchDuration :: "nat \<Rightarrow> nat"
  scriptElapsedAt :: "nat \<Rightarrow> nat"

text \<open>
  Modelled from the spec: \<open>throwUnexpectedError\<close> and \<open>throwUserError\<close> (module
  \<open>./error\<close>, not among the sources) raise a fatal error. An error below is the
  exception that leaves \<open>fetchAll\<close>, with the data its message is built from.
\<close>

datatype fetchError =
    NoBaseUrl
  | URIError
  | RuntimeLimitAbort string "string list"
  | QuotaReached
  | TransportFailure string
  | JsonSyntaxError
  | TypeError
  | ApiMethodFailed string "(string \<times> string) list option" "json option"
  | ApiMethodsFailed nat

datatype logEvent =
    CacheParseFailed string
  | CacheSaveFailed string
  | DebugRequests "string list"
  | ConsoleLog string
  | RequestFailedWithCode int
  | ApiErrorReturned string "json option"
  | RetryNotice nat nat

subsection \<open>Text matching\<close>

definition toLowerChar :: "char \<Rightarrow> char" where
  "toLowerChar c =
     (if 65 \<le> (of_char c :: nat) \<and> (of_char c :: nat) \<le> 90
      then char_of ((of_char c :: nat) + 32) else c)"

definition toLowerCase :: "string \<Rightarrow> string" where
  "toLowerCase s = map toLowerChar s"

definition startsWith :: "string \<Rightarrow> string \<Rightarrow> bool" where
  "startsWith s p = (take (length p) s = p)"

text \<open>\<open>s.includes(p)\<close>.\<close>

fun includesStr :: "string \<Rightarrow> string \<Rightarrow> bool" where
  "includesStr [] p = (p = [])"
| "includesStr (c # cs) p = (startsWith (c # cs) p \<or> includesStr cs p)"

text \<open>
  The regular expressions of \<open>isApiErrorNonRandom\<close> are sequences of literal text,
  \<open>.*\<close> (any characters but line ends) and \<open>\w+\<close> (one or more letters, digits or
  underscores), matched anywhere in the message and without regard to case.
\<close>

datatype rx = Lit string | AnyStar | WordPlus

definition isWordChar :: "char \<Rightarrow> bool" where
  "isWordChar c =
     (c \<in> set ''abcdefghijklmnopqrstuvwxyzABCDEFGHIJKLMNOPQRSTUVWXYZ0123456789_'')"

definition isLineEnd :: "char \<Rightarrow> bool" where
  "isLineEnd c = (c = CHR 0x0A \<or> c = CHR 0x0D)"

primrec matchHere :: "rx list \<Rightarrow> string \<Rightarrow> bool" where
  "matchHere [] s = True"
| "matchHere (r # rs) s =
     (case r of
        Lit l \<Rightarrow>
          toLowerCase (take (length l) s) = toLowerCase l \<and> matchHere rs (drop (length l) s)
      | AnyStar \<Rightarrow>
          list_ex (\<lambda>k. matchHere rs (drop k s))
            [0..<Suc (length (takeWhile (\<lambda>c. \<not> isLineEnd c) s))]
      | WordPlus \<Rightarrow>
          list_ex (\<lambda>k. matchHere rs (drop k s))
            [1..<Suc (length (takeWhile isWordChar s))])"

definition regexTest :: "rx list \<Rightarrow> string \<Rightarrow> bool" where
  "regexTest p s = list_ex (\<lambda>k. matchHere p (drop k s)) [0..<Suc (length s)]"

definition isApiErrorNonRandom :: "string \<Rightarrow> bool" where
  "isApiErrorNonRandom message =
     (regexTest [Lit ''Requested report'', AnyStar,
                 Lit ''not found in the list of available reports''] message
      \<or> regexTest [Lit ''does not support multiple''] message
      \<or> regexTest [Lit ''The plugin '', WordPlus, Lit '' is not enabled''] message
      \<or> regexTest [Lit ''does not exist''] message
      \<or> regexTest [Lit ''You can't access this resource''] message
      \<or> regexTest [Lit ''An unexpected website was found''] message
      \<or> regexTest [Lit ''Referrers.getAll with multiple sites or dates is not supported'']
           message)"

definition isUrlFetchErrorQuotaLimitReachedError :: "string \<Rightarrow> bool" where
  "isUrlFetchErrorQuotaLimitReachedError errorMessage =
     includesStr (toLowerCase errorMessage) ''service invoked too many times for one day: urlfetch''"

definition isUrlFetchErrorProbablyTemporary :: "string \<Rightarrow> bool" where
  "isUrlFetchErrorProbablyTemporary errorMessage =
     (includesStr (toLowerCase errorMessage) ''address unavailable''
      \<or> includesStr (toLowerCase errorMessage) ''dns error''
      \<or> includesStr (toLowerCase errorMessage) ''property fetchall on object urlfetchapp'')"

subsection \<open>Building the requests\<close>

text \<open>
  An object literal keeps its keys in insertion order, and writing a key again replaces
  the value where the key stands (the parameter names of a request are not array
  indices, which an object would list first). \<open>finalParams\<close> is the literal with the
  request's parameters spread into it; no value of it is undefined, so the filter of the
  source keeps every entry.
\<close>

definition finalParams :: "config \<Rightarrow> request \<Rightarrow> (string \<times> string) list" where
  "finalParams C req =
     foldl (\<lambda>obj (k, v). AList.update k v obj)
       [(''module'', ''API''), (''method'', reqMethod req), (''format'', ''JSON'')]
       ((case reqParams req of None \<Rightarrow> [] | Some ps \<Rightarrow> ps)
          @ [(API_REQUEST_SOURCE_IDENTIFIER C, ''1'')])"

text \<open>The query of one request; \<open>None\<close> when \<open>encodeURIComponent\<close> throws on a value.\<close>

definition buildQuery :: "config \<Rightarrow> services \<Rightarrow> request \<Rightarrow> string option" where
  "buildQuery C S req =
     map_option (join ''&'')
       (those (map (\<lambda>(name, v). map_option (\<lambda>encoded. name @ ''='' @ encoded)
                                   (encodeURIComponent S v))
                 (finalParams C req)))"

text \<open>\<open>Object.fromEntries(allUrls.map((url, i) => [url, i]))\<close>.\<close>

definition fromEntries :: "(string \<times> nat) list \<Rightarrow> (string \<times> nat) list" where
  "fromEntries entries = foldl (\<lambda>obj (k, v). AList.update k v obj) [] entries"

definition mapUrlsToIndex :: "string list \<Rightarrow> (string \<times> nat) list" where
  "mapUrlsToIndex allUrls = fromEntries (zip allUrls [0..<length allUrls])"

text \<open>A value that is undefined, null or the empty string is falsy; \<open>a || b\<close>.\<close>

definition truthyText :: "string option \<Rightarrow> bool" where
  "truthyText t = (case t of None \<Rightarrow> False | Some x \<Rightarrow> x \<noteq> [])"

definition orElse :: "string option \<Rightarrow> string option \<Rightarrow> string option" where
  "orElse a b = (if truthyText a then a else b)"

text \<open>The text of a value that may be null inside a string concatenation.\<close>

definition textOrNull :: "string option \<Rightarrow> string" where
  "textOrNull t = (case t of None \<Rightarrow> ''null'' | Some x \<Rightarrow> x)"

subsection \<open>The base URL\<close>

text \<open>
  The \<open>replace\<close> of the base URL: its expression matches one or more slashes, then
  optionally \<open>index.php\<close> and after it optionally a question mark, at the end of the
  text; \<open>replace\<close> removes the leftmost match, which runs to the end of the text.
\<close>

definition matchesTail :: "string \<Rightarrow> bool" where
  "matchesTail t =
     (let slashes = takeWhile (\<lambda>c. c = CHR ''/'') t;
          rest = drop (length slashes) t in
      slashes \<noteq> [] \<and> (rest = [] \<or> rest = ''index.php'' \<or> rest = ''index.php?''))"

fun stripTail :: "string \<Rightarrow> string" where
  "stripTail [] = []"
| "stripTail (c # s) = (if matchesTail (c # s) then [] else c # stripTail s)"

text \<open>
  The expression of \<open>extractBasicAuthFromUrl\<close>,
  \<open>^(https?)://([^:]+)(?::([^@]+)?)?@(.+)\<close>, matched as the engine does: a greedy
  repetition takes the longest run first and gives characters back one at a time, an
  optional group is tried before it is skipped, and the dot stops at a line end.
  \<open>matchRest\<close> is \<open>@(.+)\<close>, \<open>matchPassword\<close> is \<open>(?::([^@]+)?)?@(.+)\<close> and
  \<open>matchUrl\<close> the whole expression, giving the protocol, the user name, the password
  (\<open>None\<close> when its group did not take part) and the rest of the URL.
\<close>

fun firstSome :: "('a \<Rightarrow> 'b option) \<Rightarrow> 'a list \<Rightarrow> 'b option" where
  "firstSome f [] = None"
| "firstSome f (x # xs) = (case f x of Some y \<Rightarrow> Some y | None \<Rightarrow> firstSome f xs)"

definition longestFirst :: "nat \<Rightarrow> nat list" where
  "longestFirst n = rev [1..<Suc n]"

definition matchRest :: "string \<Rightarrow> string option" where
  "matchRest t =
     (case t of
        [] \<Rightarrow> None
      | c # r \<Rightarrow>
          if c = CHR ''@'' \<and> takeWhile (\<lambda>d. \<not> isLineEnd d) r \<noteq> []
          then Some (takeWhile (\<lambda>d. \<not> isLineEnd d) r) else None)"

definition matchColonPassword :: "string \<Rightarrow> (string option \<times> string) option" where
  "matchColonPassword t =
     (case t of
        [] \<Rightarrow> None
      | c # p \<Rightarrow>
          if c = CHR '':'' then
            (case firstSome (\<lambda>m. map_option (Pair (Some (take m p))) (matchRest (drop m p)))
                    (longestFirst (length (takeWhile (\<lambda>d. d \<noteq> CHR ''@'') p))) of
               Some found \<Rightarrow> Some found
             | None \<Rightarrow> map_option (Pair None) (matchRest p))
          else None)"

definition matchPassword :: "string \<Rightarrow> (string option \<times> string) option" where
  "matchPassword t =
     (case matchColonPassword t of
        Some found \<Rightarrow> Some found
      | None \<Rightarrow> map_option (Pair None) (matchRest t))"

definition matchProtocol :: "string \<Rightarrow> (string \<times> string) option" where
  "matchProtocol u =
     (if take 8 u = ''https://'' then Some (''https'', drop 8 u)
      else if take 7 u = ''http://'' then Some (''http'', drop 7 u)
      else None)"

definition matchUrl :: "string \<Rightarrow> (string \<times> string \<times> string option \<times> string) option" where
  "matchUrl u =
     (case matchProtocol u of
        None \<Rightarrow> None
      | Some (protocol, r) \<Rightarrow>
          firstSome (\<lambda>n. map_option (\<lambda>(httpPassword, restOfUrl).
                                      (protocol, take n r, httpPassword, restOfUrl))
                         (matchPassword (drop n r)))
            (longestFirst (length (takeWhile (\<lambda>d. d \<noteq> CHR '':'') r))))"

text \<open>
  \<open>extractBasicAuthFromUrl\<close>: the headers and the URL without the credentials, or the
  \<open>URIError\<close> of \<open>decodeURIComponent\<close>, the user name being decoded first.
\<close>

definition extractBasicAuthFromUrl ::
  "services \<Rightarrow> string \<Rightarrow> fetchError + ((string \<times> string) list \<times> string)" where
  "extractBasicAuthFromUrl S u =
     (case matchUrl u of
        None \<Rightarrow> Inr ([], u)
      | Some (protocol, httpUsername, httpPassword, restOfUrl) \<Rightarrow>
          if httpUsername \<noteq> [] then
            (case decodeURIComponent S httpUsername of
               None \<Rightarrow> Inl URIError
             | Some username \<Rightarrow>
                 (case decodeURIComponent S
                         (case httpPassword of None \<Rightarrow> [] | Some p \<Rightarrow> p) of
                    None \<Rightarrow> Inl URIError
                  | Some password \<Rightarrow>
                      Inr ([(''Authorization'',
                              ''Basic '' @ base64Encode S (username @ '':'' @ password))],
                           protocol @ ''://'' @ restOfUrl)))
          else Inr ([], u))"

subsection \<open>Numbers as text\<close>

definition digitChar :: "nat \<Rightarrow> char" where
  "digitChar d = char_of (48 + d)"

function decimal :: "nat \<Rightarrow> string" where
  "decimal n = (if n < 10 then [digitChar n] else decimal (n div 10) @ [digitChar (n mod 10)])"
  by pat_completeness auto
termination
  by (relation "measure id") auto

declare decimal.simps [simp del]

definition intText :: "int \<Rightarrow> string" where
  "intText i = (if i < 0 then ''-'' @ decimal (nat (- i)) else decimal (nat i))"

subsection \<open>The state of one call\<close>

text \<open>
  \<open>allUrlsMappedToIndex\<close>, \<open>responseContents\<close>, \<open>currentWaitBeforeRetryTime\<close> and
  \<open>countOfFailedRequests\<close>, \<open>baseUrl\<close> and \<open>authHeaders\<close> are the variables of the
  source (the last two are set before the loop and only read in it). \<open>clock\<close> is the time
  \<open>Date.now()\<close> reads, in milliseconds; it advances in the outbound fetch and in
  \<open>Utilities.sleep\<close>. The rest records what the call did: \<open>roundNo\<close> counts the
  outbound batch fetches, \<open>fetched\<close> lists the queries of each batch, \<open>slept\<close> the
  arguments of each sleep, \<open>logged\<close> what went to the logs.
\<close>

record loopState =
  allUrlsMappedToIndex :: "(string \<times> nat) list"
  responseContents :: "json option list"
  currentWaitBeforeRetryTime :: nat
  countOfFailedRequests :: nat
  baseUrl :: string
  authHeaders :: "(string \<times> string) list"
  clock :: nat
  roundNo :: nat
  fetched :: "string list list"
  slept :: "nat list"
  logged :: "logEvent list"

text \<open>
  \<open>array[i] = v\<close>: writing past the end extends the array, the indices in between
  staying holes.
\<close>

definition arraySet :: "'a option list \<Rightarrow> nat \<Rightarrow> 'a \<Rightarrow> 'a option list" where
  "arraySet xs i v =
     (if i < length xs then xs[i := Some v]
      else xs @ replicate (i - length xs) None @ [Some v])"

text \<open>
  \<open>responseContents[responseIndex] = v\<close>, where \<open>responseIndex\<close> is what the
  object has for the query. (Every query processed is a key of the object; were it not,
  the index would be undefined and the write would leave the array's elements alone.)
\<close>

definition storeResponse :: "string \<Rightarrow> json \<Rightarrow> loopState \<Rightarrow> loopState" where
  "storeResponse urlFetched v st =
     (case map_of (allUrlsMappedToIndex st) urlFetched of
        None \<Rightarrow> st
      | Some responseIndex \<Rightarrow>
          st\<lparr>responseContents := arraySet (responseContents st) responseIndex v\<rparr>)"

definition failedWithCode :: "int \<Rightarrow> string \<Rightarrow> json" where
  "failedWithCode code body =
     JObj [(''result'', JStr ''error''),
           (''message'', JStr (''Matomo server failed with code '' @ intText code
              @ ''. Truncated response: '' @ take 100 body))]"

definition isRetryableCode :: "int \<Rightarrow> bool" where
  "isRetryableCode code = ((code \<ge> 502 \<and> code \<le> 504) \<or> code = 420)"

subsection \<open>One response\<close>

text \<open>
  The body of \<open>responses.forEach\<close> for the response \<open>(code, body)\<close> to the query
  \<open>urlFetched\<close>. An exception is \<open>Inl\<close>, with the state at the throw.
\<close>

definition processResponse ::
  "services \<Rightarrow> string \<Rightarrow> int \<times> string \<Rightarrow> loopState \<Rightarrow> (fetchError \<times> loopState) + loopState" where
  "processResponse S urlFetched r st =
     (let code = fst r; body = snd r in
      if code < 200 \<or> code \<ge> 400 then
        (let st1 = st\<lparr>logged := logged st @ [RequestFailedWithCode code]\<rparr> in
         if isRetryableCode code then
           Inr (st1\<lparr>countOfFailedRequests := countOfFailedRequests st1 + 1\<rparr>)
         else
           (let st2 = storeResponse urlFetched (failedWithCode code body) st1 in
            Inr (st2\<lparr>allUrlsMappedToIndex :=
                        AList.delete urlFetched (allUrlsMappedToIndex st2)\<rparr>)))
      else
        (case jsonParse S (if body = [] then ''{}'' else body) of
           None \<Rightarrow> Inl (JsonSyntaxError, st)
         | Some v \<Rightarrow>
             if v = JNull then Inl (TypeError, st)
             else
               (let st1 = storeResponse urlFetched v st in
                if getField v ''result'' = Some (JStr ''error'')
                   \<and> \<not> isApiErrorNonRandom (messageText (getField v ''message''))
                then
                  Inr (st1\<lparr>logged := logged st1
                               @ [ApiErrorReturned urlFetched (getField v ''message'')],
                           countOfFailedRequests := countOfFailedRequests st1 + 1\<rparr>)
                else
                  Inr (st1\<lparr>allUrlsMappedToIndex :=
                              AList.delete urlFetched (allUrlsMappedToIndex st1)\<rparr>))))"

text \<open>\<open>responses.forEach\<close>: the responses in order, up to the first exception.\<close>

fun processResponses ::
  "services \<Rightarrow> (string \<times> (int \<times> string)) list \<Rightarrow> loopState \<Rightarrow> (fetchError \<times> loopState) + loopState" where
  "processResponses S [] st = Inr st"
| "processResponses S ((u, r) # rest) st =
     (case processResponse S u r st of
        Inl thrown \<Rightarrow> Inl thrown
      | Inr st' \<Rightarrow> processResponses S rest st')"

subsection \<open>One round\<close>

text \<open>
  The end of the loop body: with requests left, log, sleep for the current interval,
  then double the interval up to the cap. \<open>slept\<close> and \<open>clock\<close> record the sleep.
\<close>

definition waitBeforeRetry :: "loopState \<Rightarrow> loopState" where
  "waitBeforeRetry st =
     (let remainingRequestCount = length (allUrlsMappedToIndex st);
          haveRequestsFailed = remainingRequestCount > 0 in
      if haveRequestsFailed then
        st\<lparr>logged := logged st
               @ [RetryNotice (countOfFailedRequests st) (currentWaitBeforeRetryTime st)],
           slept := slept st @ [currentWaitBeforeRetryTime st],
           clock := clock st + currentWaitBeforeRetryTime st,
           currentWaitBeforeRetryTime :=
             min (currentWaitBeforeRetryTime st * 2) (MAX_WAIT_BEFORE_RETRY * 1000)\<rparr>
      else st)"

text \<open>
  The check at the top of the loop body, and the message of the abort
  (\<open>runtimeLimitAbortMessage || '...'\<close>).
\<close>

definition runtimeLimitExceeded :: "config \<Rightarrow> services \<Rightarrow> ApiFetchOptions \<Rightarrow> loopState \<Rightarrow> bool" where
  "runtimeLimitExceeded C S opts st =
     (checkRuntimeLimit opts \<and> SCRIPT_RUNTIME_LIMIT C > 0
      \<and> int (scriptElapsedAt S (clock st)) > SCRIPT_RUNTIME_LIMIT C * 1000)"

definition abortMessage :: "ApiFetchOptions \<Rightarrow> string" where
  "abortMessage opts =
     (if truthyText (runtimeLimitAbortMessage opts) then textOrNull (runtimeLimitAbortMessage opts)
      else ''This request is taking too long, aborting.'')"

text \<open>
  The batch holds one request per key of \<open>allUrlsMappedToIndex\<close>, in the order of the
  keys. The headers are an object literal: the user agent, then the configured extra
  headers and the authorization header spread into it. \<open>startRound\<close> is the state once
  the batch is sent: \<open>countOfFailedRequests\<close> is reset, the batch is recorded and the
  clock moved on.
\<close>

definition requestHeaders :: "config \<Rightarrow> loopState \<Rightarrow> (string \<times> string) list" where
  "requestHeaders C st =
     foldl (\<lambda>obj (k, v). AList.update k v obj)
       [(''User-Agent'', FETCH_USER_AGENT)]
       (API_REQUEST_EXTRA_HEADERS C @ authHeaders st)"

definition requestFor ::
  "config \<Rightarrow> services \<Rightarrow> ApiFetchOptions \<Rightarrow> loopState \<Rightarrow> string \<Rightarrow> URLFetchRequest" where
  "requestFor C S opts st u =
     \<lparr>url = baseUrl st,
      headers = requestHeaders C st,
      httpMethod = ''post'',
      payload = u @ ''&token_auth='' @ textOrNull (orElse (token opts) (userToken S)),
      muteHttpExceptions = True,
      wholeUrl = u\<rparr>"

definition urlsToFetch ::
  "config \<Rightarrow> services \<Rightarrow> ApiFetchOptions \<Rightarrow> loopState \<Rightarrow> URLFetchRequest list" where
  "urlsToFetch C S opts st = map (requestFor C S opts st) (map fst (allUrlsMappedToIndex st))"

definition startRound :: "services \<Rightarrow> loopState \<Rightarrow> loopState" where
  "startRound S st =
     st\<lparr>countOfFailedRequests := 0,
        roundNo := roundNo st + 1,
        fetched := fetched st @ [map fst (allUrlsMappedToIndex st)],
        clock := clock st + fetchDuration S (roundNo st)\<rparr>"

text \<open>
  The \<open>catch\<close> around the batch fetch: the message is printed, a quota message
  raises the user error, an unknown message is thrown again, and a message that looks
  temporary leaves the round with no response.
\<close>

definition onFetchException :: "string \<Rightarrow> loopState \<Rightarrow> (fetchError \<times> loopState) + loopState" where
  "onFetchException errorMessage st0 =
     (let st1 = st0\<lparr>logged := logged st0 @ [ConsoleLog errorMessage]\<rparr> in
      if isUrlFetchErrorQuotaLimitReachedError errorMessage then Inl (QuotaReached, st1)
      else if \<not> isUrlFetchErrorProbablyTemporary errorMessage
      then Inl (TransportFailure errorMessage, st1)
      else Inr (waitBeforeRetry st1))"

text \<open>The loop body.\<close>

definition fetchRound ::
  "config \<Rightarrow> services \<Rightarrow> ApiFetchOptions \<Rightarrow> loopState \<Rightarrow> (fetchError \<times> loopState) + loopState" where
  "fetchRound C S opts st =
     (if runtimeLimitExceeded C S opts st then
        Inl (RuntimeLimitAbort (abortMessage opts) (map fst (allUrlsMappedToIndex st)), st)
      else
        (case fetchThrows S (roundNo st) (urlsToFetch C S opts st) of
           Some errorMessage \<Rightarrow> onFetchException errorMessage (startRound S st)
         | None \<Rightarrow>
             (case processResponses S
                     (map (\<lambda>q. (wholeUrl q, respond S (roundNo st) q)) (urlsToFetch C S opts st))
                     (startRound S st) of
                Inl thrown \<Rightarrow> Inl thrown
              | Inr st1 \<Rightarrow> Inr (waitBeforeRetry st1))))"

subsection \<open>The loop\<close>

definition loopCondition :: "config \<Rightarrow> nat \<Rightarrow> loopState \<Rightarrow> bool" where
  "loopCondition C startTime st =
     (length (allUrlsMappedToIndex st) \<noteq> 0
      \<and> int (clock st) < int startTime + API_REQUEST_RETRY_LIMIT_IN_SECS C * 1000)"

text \<open>
  The \<open>while\<close> loop, with fuel: \<open>None\<close> when the rounds are not over after \<open>fuel\<close>
  of them.
\<close>

fun fetchLoop ::
  "nat \<Rightarrow> config \<Rightarrow> services \<Rightarrow> ApiFetchOptions \<Rightarrow> nat \<Rightarrow> loopState
     \<Rightarrow> ((fetchError \<times> loopState) + loopState) option" where
  "fetchLoop 0 C S opts startTime st =
     (if loopCondition C startTime st then None else Some (Inr st))"
| "fetchLoop (Suc fuel) C S opts startTime st =
     (if loopCondition C startTime st then
        (case fetchRound C S opts st of
           Inl thrown \<Rightarrow> Some (Inl thrown)
         | Inr st' \<Rightarrow> fetchLoop fuel C S opts startTime st')
      else Some (Inr st))"

text \<open>The state an iteration or the loop ends in, thrown or not.\<close>

definition stateOf :: "(fetchError \<times> loopState) + loopState \<Rightarrow> loopState" where
  "stateOf r = (case r of Inl thrown \<Rightarrow> snd thrown | Inr st \<Rightarrow> st)"

definition pendingKeys :: "loopState \<Rightarrow> string set" where
  "pendingKeys st = fst ` set (allUrlsMappedToIndex st)"

subsection \<open>Finalization\<close>

text \<open>
  \<open>responseContents.map((r, i) => ({ ...r, index: i })).filter((r) => r.result === 'error')\<close>:
  the entries whose \<open>result\<close> is the string \<open>error\<close>, each with its index. Holes
  are skipped by \<open>map\<close> and \<open>filter\<close>.
\<close>

definition errorResponses :: "json option list \<Rightarrow> (nat \<times> json) list" where
  "errorResponses rc =
     filter (\<lambda>(i, v). getField v ''result'' = Some (JStr ''error''))
       (List.map_filter (\<lambda>(i, entry). map_option (Pair i) entry) (zip [0..<length rc] rc))"

text \<open>
  The check under \<open>throwOnFailedRequest\<close>: \<open>Some\<close> error when it throws.
  Destructuring \<open>requests[index]\<close> past the end of \<open>requests\<close> is a TypeError.
\<close>

definition checkFailedRequests ::
  "ApiFetchOptions \<Rightarrow> request list \<Rightarrow> json option list \<Rightarrow> fetchError option" where
  "checkFailedRequests opts requests rc =
     (if throwOnFailedRequest opts then
        (let errs = errorResponses rc in
         if length errs = 1 then
           (let i = fst (errs ! 0); v = snd (errs ! 0) in
            if i < length requests then
              Some (ApiMethodFailed (reqMethod (requests ! i)) (reqParams (requests ! i))
                      (getField v ''message''))
            else Some TypeError)
         else if length errs > 1 then Some (ApiMethodsFailed (length errs))
         else None)
      else None)"

definition cacheEnabled :: "ApiFetchOptions \<Rightarrow> bool" where
  "cacheEnabled opts =
     (truthyText (cacheKey opts) \<and> (case cacheTtl opts of None \<Rightarrow> False | Some ttl \<Rightarrow> ttl > 0))"

definition cacheKeyText :: "ApiFetchOptions \<Rightarrow> string" where
  "cacheKeyText opts = (case cacheKey opts of None \<Rightarrow> [] | Some k \<Rightarrow> k)"

definition cacheTtlValue :: "ApiFetchOptions \<Rightarrow> int" where
  "cacheTtlValue opts = (case cacheTtl opts of None \<Rightarrow> 0 | Some ttl \<Rightarrow> ttl)"

text \<open>
  What a call returns: the decoded cache entry, or the response array. \<open>outcome\<close> is
  the exception (\<open>Inl\<close>) or the returned value; \<open>batches\<close>, \<open>sleeps\<close> and
  \<open>logs\<close> are the outbound batch fetches, the sleeps and the log entries of the call.
\<close>

datatype fetchResult = FromCache json | Fetched "json option list"

record fetchOutcome =
  outcome :: "fetchError + fetchResult"
  batches :: "string list list"
  sleeps :: "nat list"
  logs :: "logEvent list"

text \<open>
  The cache write at the end: \<open>JSON.stringify\<close> or \<open>cache.put\<close> throwing is caught
  and logged.
\<close>

definition cacheWriteFails :: "services \<Rightarrow> ApiFetchOptions \<Rightarrow> json option list \<Rightarrow> bool" where
  "cacheWriteFails S opts rc =
     (case jsonStringify S rc of
        None \<Rightarrow> True
      | Some text \<Rightarrow> cachePutThrows S (cacheKeyText opts) text (cacheTtlValue opts))"

definition finalize ::
  "services \<Rightarrow> ApiFetchOptions \<Rightarrow> request list \<Rightarrow> loopState \<Rightarrow> fetchOutcome" where
  "finalize S opts requests st =
     (case checkFailedRequests opts requests (responseContents st) of
        Some e \<Rightarrow>
          \<lparr>outcome = Inl e, batches = fetched st, sleeps = slept st, logs = logged st\<rparr>
      | None \<Rightarrow>
          \<lparr>outcome = Inr (Fetched (responseContents st)),
           batches = fetched st,
           sleeps = slept st,
           logs =
             (if cacheEnabled opts \<and> cacheWriteFails S opts (responseContents st)
              then logged st @ [CacheSaveFailed (cacheKeyText opts)]
              else logged st)\<rparr>)"

subsection \<open>fetchAll\<close>

text \<open>
  The cache read at the start: the decoded entry on a hit, and what was logged.
\<close>

definition readCache :: "services \<Rightarrow> ApiFetchOptions \<Rightarrow> json option \<times> logEvent list" where
  "readCache S opts =
     (if cacheEnabled opts then
        (case cacheGet S (cacheKeyText opts) of
           None \<Rightarrow> (None, [])
         | Some cacheEntry \<Rightarrow>
             (case jsonParse S cacheEntry of
                Some v \<Rightarrow> (Some v, [])
              | None \<Rightarrow> (None, [CacheParseFailed (cacheKeyText opts)])))
      else (None, []))"

text \<open>
  What \<open>fetchAll\<close> computes between the cache read and the loop, in the order of the
  source: the base URL must be set; its tail is replaced by \<open>/index.php?\<close>; the
  credentials are taken out of it; the query of every request is built. The result is
  the target (base URL and authorization headers) and the queries, or the error thrown.
\<close>

definition prepareCall ::
  "config \<Rightarrow> services \<Rightarrow> ApiFetchOptions \<Rightarrow> request list
     \<Rightarrow> fetchError + ((string \<times> (string \<times> string) list) \<times> string list)" where
  "prepareCall C S opts requests =
     (if \<not> truthyText (orElse (instanceUrl opts) (userUrl S)) then Inl NoBaseUrl
      else
        (case extractBasicAuthFromUrl S
                (stripTail (textOrNull (orElse (instanceUrl opts) (userUrl S)))
                   @ ''/index.php?'') of
           Inl thrown \<Rightarrow> Inl thrown
         | Inr (headersFound, urlWithoutAuth) \<Rightarrow>
             (case those (map (buildQuery C S) requests) of
                None \<Rightarrow> Inl URIError
              | Some allUrls \<Rightarrow> Inr ((urlWithoutAuth, headersFound), allUrls))))"

text \<open>The variables at the first evaluation of the loop condition.\<close>

definition initialState ::
  "string \<times> (string \<times> string) list \<Rightarrow> string list \<Rightarrow> nat \<Rightarrow> logEvent list \<Rightarrow> loopState" where
  "initialState target allUrls now logs0 =
     \<lparr>allUrlsMappedToIndex = mapUrlsToIndex allUrls,
      responseContents = [],
      currentWaitBeforeRetryTime = 1000,
      countOfFailedRequests = 0,
      baseUrl = fst target,
      authHeaders = snd target,
      clock = now,
      roundNo = 0,
      fetched = [],
      slept = [],
      logged = logs0 @ [DebugRequests allUrls]\<rparr>"

text \<open>
  \<open>fetchAll\<close> past the cache read, \<open>logs0\<close> being what the read logged and \<open>now\<close>
  the clock at the call.
\<close>

definition fetchAllUncached ::
  "nat \<Rightarrow> config \<Rightarrow> services \<Rightarrow> ApiFetchOptions \<Rightarrow> request list \<Rightarrow> nat \<Rightarrow> logEvent list
     \<Rightarrow> fetchOutcome option" where
  "fetchAllUncached fuel C S opts requests now logs0 =
     (case prepareCall C S opts requests of
        Inl thrown \<Rightarrow> Some \<lparr>outcome = Inl thrown, batches = [], sleeps = [], logs = logs0\<rparr>
      | Inr (target, allUrls) \<Rightarrow>
          (case fetchLoop fuel C S opts now (initialState target allUrls now logs0) of
             None \<Rightarrow> None
           | Some (Inl thrown) \<Rightarrow>
               Some \<lparr>outcome = Inl (fst thrown),
                     batches = fetched (snd thrown),
                     sleeps = slept (snd thrown),
                     logs = logged (snd thrown)\<rparr>
           | Some (Inr st) \<Rightarrow> Some (finalize S opts requests st)))"

definition fetchAll ::
  "nat \<Rightarrow> config \<Rightarrow> services \<Rightarrow> ApiFetchOptions \<Rightarrow> request list \<Rightarrow> nat \<Rightarrow> fetchOutcome option" where
  "fetchAll fuel C S opts requests now =
     (case fst (readCache S opts) of
        Some v \<Rightarrow> Some \<lparr>outcome = Inr (FromCache v), batches = [], sleeps = [], logs = []\<rparr>
      | None \<Rightarrow> fetchAllUncached fuel C S opts requests now (snd (readCache S opts)))"

subsection \<open>A sample installation\<close>

text \<open>
  Concrete collaborators for the examples: no cache entry, a stored instance URL and
  token, a decoder that knows the bodies the examples use, URL coders that leave the
  text as it is and never throw (the examples' values need no escaping) unless an
  example says otherwise, the base64 encoding of a text's bytes, a transport that never
  throws and answers the request with
  the query \<open>u\<close> in round \<open>r\<close> by \<open>answers r u\<close>, and a clock that only moves in
  sleeps.
\<close>

definition exampleConfig :: "int option \<Rightarrow> config" where
  "exampleConfig limit =
     \<lparr>envScriptRuntimeLimit = None,
      envApiRequestRetryLimitInSecs = limit,
      API_REQUEST_SOURCE_IDENTIFIER = ''src'',
      API_REQUEST_EXTRA_HEADERS = []\<rparr>"

definition versionPayload :: json where
  "versionPayload = JObj [(''value'', JStr ''5.0.0'')]"

definition versionBody :: string where
  \<open>versionBody = ''{"value":"5.0.0"}''\<close>

definition exampleParse :: "string \<Rightarrow> json option" where
  \<open>exampleParse text =
     (if text = versionBody then Some versionPayload
      else if text = ''{}'' then Some (JObj [])
      else if text = ''[{"value":"5.0.0"}]'' then Some (JArr [versionPayload])
      else if text = ''null'' then Some JNull
      else None)\<close>

definition base64Digit :: "nat \<Rightarrow> char" where
  "base64Digit n =
     ''ABCDEFGHIJKLMNOPQRSTUVWXYZabcdefghijklmnopqrstuvwxyz0123456789+/'' ! n"

fun base64Of :: "nat list \<Rightarrow> string" where
  "base64Of (a # b # c # rest) =
     [base64Digit (a div 4), base64Digit ((a mod 4) * 16 + b div 16),
      base64Digit ((b mod 16) * 4 + c div 64), base64Digit (c mod 64)] @ base64Of rest"
| "base64Of [a, b] =
     [base64Digit (a div 4), base64Digit ((a mod 4) * 16 + b div 16),
      base64Digit ((b mod 16) * 4), CHR ''='']"
| "base64Of [a] = [base64Digit (a div 4), base64Digit ((a mod 4) * 16), CHR ''='', CHR ''='']"
| "base64Of [] = []"

definition exampleServices :: "(nat \<Rightarrow> string \<Rightarrow> int \<times> string) \<Rightarrow> services" where
  "exampleServices answers =
     \<lparr>cacheGet = (\<lambda>k. None),
      cachePutThrows = (\<lambda>k text ttl. False),
      userUrl = Some ''https://matomo.example'',
      userToken = Some ''secret'',
      jsonParse = exampleParse,
      jsonStringify = (\<lambda>rc. Some ''[]''),
      encodeURIComponent = Some,
      decodeURIComponent = Some,
      base64Encode = (\<lambda>t. base64Of (map of_char t)),
      fetchThrows = (\<lambda>r batch. None),
      respond = (\<lambda>r q. answers r (wholeUrl q)),
      fetchDuration = (\<lambda>r. 0),
      scriptElapsedAt = (\<lambda>now. now)\<rparr>"

definition exampleOptions :: "bool \<Rightarrow> ApiFetchOptions" where
  "exampleOptions strict =
     \<lparr>instanceUrl = None, token = None, cacheKey = None, cacheTtl = None,
      checkRuntimeLimit = False, runtimeLimitAbortMessage = None,
      throwOnFailedRequest = strict\<rparr>"

definition versionRequest :: request where
  "versionRequest = \<lparr>reqMethod = ''API.getMatomoVersion'', reqParams = None\<rparr>"

definition versionQuery :: string where
  "versionQuery = ''module=API&method=API.getMatomoVersion&format=JSON&src=1''"

definition exampleTarget :: "string \<times> (string \<times> string) list" where
  "exampleTarget = (''https://matomo.example/index.php?'', [])"




section \<open>Relations between states, for the proofs\<close>

text \<open>
  \<open>sameRound st st'\<close>: what processing responses cannot change. The pending
  requests only get fewer, and nothing is fetched or slept.
\<close>

definition sameRound :: "loopState \<Rightarrow> loopState \<Rightarrow> bool" where
  "sameRound st st' =
     (pendingKeys st' \<subseteq> pendingKeys st
      \<and> set (allUrlsMappedToIndex st') \<subseteq> set (allUrlsMappedToIndex st)
      \<and> fetched st' = fetched st \<and> slept st' = slept st
      \<and> currentWaitBeforeRetryTime st' = currentWaitBeforeRetryTime st
      \<and> clock st' = clock st \<and> roundNo st' = roundNo st
      \<and> (\<exists>more. logged st' = logged st @ more))"

text \<open>
  \<open>laterRound st st'\<close>: what rounds cannot change. The pending requests only get
  fewer, and every batch fetched after \<open>st\<close> asks only for requests pending at
  \<open>st\<close>.
\<close>

definition laterRound :: "loopState \<Rightarrow> loopState \<Rightarrow> bool" where
  "laterRound st st' =
     (pendingKeys st' \<subseteq> pendingKeys st
      \<and> set (allUrlsMappedToIndex st') \<subseteq> set (allUrlsMappedToIndex st)
      \<and> (\<exists>new. fetched st' = fetched st @ new \<and> list_all (\<lambda>b. set b \<subseteq> pendingKeys st) new)
      \<and> (\<exists>more. logged st' = logged st @ more)
      \<and> (\<exists>more. slept st' = slept st @ more))"

text \<open>
  The backoff interval after \<open>n\<close> sleeps is \<open>1000 * 2 ^ n\<close> capped at 32000, and
  the sleeps so far are these values in order.
\<close>

definition backoffInv :: "loopState \<Rightarrow> bool" where
  "backoffInv st =
     (currentWaitBeforeRetryTime st = min (1000 * 2 ^ length (slept st)) 32000
      \<and> slept st = map (\<lambda>k. min (1000 * 2 ^ k) 32000) [0..<length (slept st)])"

text \<open>Every index of a pending request, and the length of the response array, are within \<open>n\<close>.\<close>

definition indexInv :: "nat \<Rightarrow> loopState \<Rightarrow> bool" where
  "indexInv n st =
     (list_all (\<lambda>p. snd p < n) (allUrlsMappedToIndex st) \<and> length (responseContents st) \<le> n)"

text \<open>The pending queries are pairwise different, and so are the queries of every batch fetched.\<close>

definition batchInv :: "loopState \<Rightarrow> bool" where
  "batchInv st =
     (distinct (map fst (allUrlsMappedToIndex st)) \<and> list_all distinct (fetched st))"

text \<open>
  \<open>roundStart n C S opts t st0\<close> is the state in which round \<open>n\<close> (counted from 0) of
  the loop started in \<open>st0\<close> begins, when the loop gets that far: the loop condition
  holds there, and no earlier round has thrown.
\<close>

fun roundStart ::
  "nat \<Rightarrow> config \<Rightarrow> services \<Rightarrow> ApiFetchOptions \<Rightarrow> nat \<Rightarrow> loopState \<Rightarrow> loopState option" where
  "roundStart 0 C S opts t st = (if loopCondition C t st then Some st else None)"
| "roundStart (Suc n) C S opts t st =
     (if loopCondition C t st then
        (case fetchRound C S opts st of
           Inl thrown \<Rightarrow> None
         | Inr st' \<Rightarrow> roundStart n C S opts t st')
      else None)"

text \<open>\<open>responseContents[i]\<close> read: a hole, or an index past the end, is undefined.\<close>

definition entryAt :: "'a option list \<Rightarrow> nat \<Rightarrow> 'a option" where
  "entryAt xs i = (if i < length xs then xs ! i else None)"


section \<open>Properties of the formula translator\<close>

subsection \<open>Accessors\<close>

lemma accessor_always_rejected:
  "toLookerString L (AccessorNode obj dims) = Inl (InvalidAccessor (AccessorNode obj dims))"
  by (simp add: nameOfTypeString_def)

text \<open>
  C1. The claim: translating \<open>$goals["idgoal=3"]["revenue"]\<close> succeeds with the text
  \<open>$goals_3_revenue\<close> and no temporary metric. What the code does at this formula:
  the translation throws the invalid-accessor error. The object of the outer accessor is
  itself an accessor, not a symbol; and whatever the object is, also when it is the symbol
  \<open>$goals\<close>, the first check of the accessor branch fails, because it compares the
  \<open>name\<close> property of the type string with \<open>$goals\<close>
  (\<open>accessor_always_rejected\<close>). No accessor is ever emitted.
\<close>

theorem goals_revenue_formula_rejected:
  \<open>mapMatomoFormulaToLooker parseExamples exampleLib (Some ''$goals["idgoal=3"]["revenue"]'')
     = Inl (InvalidAccessor goalsRevenueAst)\<close>
  by (simp add: mapMatomoFormulaToLooker_def parseExamples_def goalsRevenueAst_def
      nameOfTypeString_def)

subsection \<open>Temporary metrics\<close>

lemma count_list_append: "count_list (xs @ ys) a = count_list xs a + count_list ys a"
  by (induction xs) auto

lemma count_pushMetric:
  "count_list (pushMetric tm node) n =
     count_list tm n + (if node = SymbolNode (CHR ''$'' # n) then 1 else 0)"
proof (cases node)
  case (SymbolNode name)
  show ?thesis
  proof (cases name)
    case Nil
    with SymbolNode show ?thesis by (simp add: pushMetric_def)
  next
    case (Cons c cs)
    with SymbolNode show ?thesis by (auto simp: pushMetric_def count_list_append)
  qed
qed (simp_all add: pushMetric_def)

lemma count_foldl_pushMetric:
  "count_list (foldl pushMetric tm nodes) n =
     count_list tm n + count_list nodes (SymbolNode (CHR ''$'' # n))"
proof (induction nodes arbitrary: tm)
  case Nil
  show ?case by simp
next
  case (Cons node nodes)
  show ?case by (simp add: Cons.IH count_pushMetric)
qed

lemma count_children:
  "(\<And>x. x \<in> set xs \<Longrightarrow> count_list (traverseNodes x) a = f x) \<Longrightarrow>
   count_list (concat (map traverseNodes xs)) a = sum_list (map f xs)"
  by (induction xs) (simp_all add: count_list_append)

lemma count_traverseNodes:
  "count_list (traverseNodes ast) (SymbolNode name) = occurrences name ast"
  by (induction ast) (simp_all add: count_list_append count_children)

text \<open>
  C4, the claim as stated fails: for \<open>$a + $a\<close> the translation succeeds and the
  returned list holds the name \<open>a\<close> twice.
\<close>

theorem temporaryMetrics_repeated_counterexample:
  "mapMatomoFormulaToLooker parseExamples exampleLib (Some ''$a + $a'')
     = Inr \<lparr>lookerFormula = Some ''$a + $a'', temporaryMetrics = [''a'', ''a'']\<rparr>"
  by (simp add: mapMatomoFormulaToLooker_def parseExamples_def exampleLib_def pushMetric_def)

text \<open>
  C4, amended: for every non-empty formula that translates successfully, a name appears
  in the returned \<open>temporaryMetrics\<close> once for every occurrence of the symbol
  \<open>$name\<close> in the formula's tree: as many times as the symbol occurs, not once.
\<close>

theorem temporaryMetrics_once_per_occurrence:
  assumes "f \<noteq> []" and "parse f = Inr ast"
    and "mapMatomoFormulaToLooker parse L (Some f) = Inr r"
  shows "count_list (temporaryMetrics r) n = occurrences (CHR ''$'' # n) ast"
proof -
  from assms have "temporaryMetrics r = foldl pushMetric [] (traverseNodes ast)"
    by (auto simp: mapMatomoFormulaToLooker_def Let_def split: if_splits sum.splits)
  then show ?thesis
    by (simp add: count_foldl_pushMetric count_traverseNodes)
qed

theorem temporaryMetrics_once_per_occurrence_witness:
  "count_list [''a'', ''b''] ''b''
     = occurrences ''$b'' (FunctionNode ''min'' [SymbolNode ''$a'', SymbolNode ''$b''])"
proof -
  have nonempty: "''min($a, $b)'' \<noteq> []" by simp
  have parsed: "parseExamples ''min($a, $b)''
      = Inr (FunctionNode ''min'' [SymbolNode ''$a'', SymbolNode ''$b''])"
    by (simp add: parseExamples_def)
  have translated: "mapMatomoFormulaToLooker parseExamples exampleLib (Some ''min($a, $b)'')
      = Inr \<lparr>lookerFormula = Some ''NARY_MIN($a, $b)'', temporaryMetrics = [''a'', ''b'']\<rparr>"
    by (simp add: mapMatomoFormulaToLooker_def parseExamples_def exampleLib_def pushMetric_def
        getProperty_def SUPPORTED_FUNCTIONS_def)
  show ?thesis
    using temporaryMetrics_once_per_occurrence [OF nonempty parsed translated, of "''b''"]
    by simp
qed

subsection \<open>Operators\<close>

lemma operator_joins_operands:
  "toLookerStrings L args = Inr strs \<Longrightarrow>
   toLookerString L (OperatorNode opr fn args) = Inr (join ('' '' @ opr @ '' '') strs)"
  by simp

text \<open>
  C5. The claim: the operator symbol of an operator node is never silently dropped, unary
  minus included. What the code does for \<open>-$a\<close>: the one operand is joined with
  nothing, so the translation succeeds with the text \<open>$a\<close>; the minus is gone and no
  error is raised.
\<close>

theorem unary_minus_dropped:
  "mapMatomoFormulaToLooker parseExamples exampleLib (Some ''-$a'')
     = Inr \<lparr>lookerFormula = Some ''$a'', temporaryMetrics = [''a'']\<rparr>"
  by (simp add: mapMatomoFormulaToLooker_def parseExamples_def exampleLib_def pushMetric_def)

subsection \<open>Function calls\<close>

lemma supported_functions_mapped:
  "toLookerString L (FunctionNode ''min'' args) = Inr (nodeToString L (FunctionNode ''NARY_MIN'' args))"
  "toLookerString L (FunctionNode ''max'' args) = Inr (nodeToString L (FunctionNode ''NARY_MAX'' args))"
  "toLookerString L (FunctionNode ''abs'' args) = Inr (nodeToString L (FunctionNode ''ABS'' args))"
  by (simp_all add: getProperty_def SUPPORTED_FUNCTIONS_def)

lemma min_example:
  "mapMatomoFormulaToLooker parseExamples exampleLib (Some ''min($a, $b)'')
     = Inr \<lparr>lookerFormula = Some ''NARY_MIN($a, $b)'', temporaryMetrics = [''a'', ''b'']\<rparr>"
  by (simp add: mapMatomoFormulaToLooker_def parseExamples_def exampleLib_def pushMetric_def
      getProperty_def SUPPORTED_FUNCTIONS_def)

lemma unknown_function_rejected:
  "n \<notin> set (map fst SUPPORTED_FUNCTIONS) \<Longrightarrow> n \<notin> set objectPrototypeProperties \<Longrightarrow>
   toLookerString L (FunctionNode n args) = Inl (UnknownFunction n)"
  by (simp add: getProperty_def SUPPORTED_FUNCTIONS_def)

text \<open>
  C9. The claim: every function call whose name is not \<open>min\<close>, \<open>max\<close> or \<open>abs\<close>
  raises the unknown-function error. What the code does for \<open>toString($a)\<close>: the
  lookup \<open>SUPPORTED_FUNCTIONS[name]\<close> finds the function every object inherits under
  that name, which is truthy, so no error is raised; the inherited value becomes the
  callee's name and the call is printed with it.
\<close>

theorem inherited_name_not_rejected:
  "toLookerString L (FunctionNode ''toString'' [SymbolNode ''$a''])
     = Inr (nodeToString L (FunctionNode (inheritedText L ''toString'') [SymbolNode ''$a'']))"
  by (simp add: getProperty_def SUPPORTED_FUNCTIONS_def objectPrototypeProperties_def)

section \<open>Properties of the dispatcher\<close>

subsection \<open>What responses and rounds leave alone\<close>

lemma set_delete_subset: "set (AList.delete k al) \<subseteq> set al"
  by (induction al) (auto simp: AList.delete_eq)

lemma storeResponse_frame [simp]:
  "allUrlsMappedToIndex (storeResponse u v st) = allUrlsMappedToIndex st"
  "fetched (storeResponse u v st) = fetched st"
  "slept (storeResponse u v st) = slept st"
  "logged (storeResponse u v st) = logged st"
  "currentWaitBeforeRetryTime (storeResponse u v st) = currentWaitBeforeRetryTime st"
  "clock (storeResponse u v st) = clock st"
  "roundNo (storeResponse u v st) = roundNo st"
  "countOfFailedRequests (storeResponse u v st) = countOfFailedRequests st"
  by (simp_all add: storeResponse_def split: option.splits)

lemma sameRound_refl [simp]: "sameRound st st"
  by (simp add: sameRound_def)

lemma sameRound_trans: "sameRound a b \<Longrightarrow> sameRound b c \<Longrightarrow> sameRound a c"
  by (auto simp: sameRound_def)

lemma processResponse_sameRound:
  "sameRound st (stateOf (processResponse S u r st))"
  using set_delete_subset[of u "allUrlsMappedToIndex st"]
  by (auto simp: processResponse_def stateOf_def sameRound_def pendingKeys_def Let_def
      split: option.splits)

lemma processResponses_sameRound:
  "sameRound st (stateOf (processResponses S rs st))"
proof (induction rs arbitrary: st)
  case Nil
  show ?case by (simp add: stateOf_def)
next
  case (Cons p rs)
  obtain u r where p: "p = (u, r)" by (cases p)
  show ?case
  proof (cases "processResponse S u r st")
    case (Inl thrown)
    with processResponse_sameRound[of st S u r] p show ?thesis
      by (simp add: stateOf_def)
  next
    case (Inr st1)
    with processResponse_sameRound[of st S u r] have "sameRound st st1"
      by (simp add: stateOf_def)
    with Cons.IH[of st1] Inr p show ?thesis
      by (auto intro: sameRound_trans)
  qed
qed

lemma processResponses_Inr_sameRound:
  "processResponses S rs st = Inr st' \<Longrightarrow> sameRound st st'"
  using processResponses_sameRound[of st S rs] by (simp add: stateOf_def)

lemma processResponses_Inl_sameRound:
  "processResponses S rs st = Inl thrown \<Longrightarrow> sameRound st (snd thrown)"
  using processResponses_sameRound[of st S rs] by (simp add: stateOf_def)


lemma laterRound_refl [simp]: "laterRound st st"
  by (simp add: laterRound_def)

lemma laterRound_trans:
  assumes "laterRound a b" and "laterRound b c"
  shows "laterRound a c"
proof -
  from assms obtain n1 n2 where
    f: "fetched b = fetched a @ n1" "fetched c = fetched b @ n2"
    and l: "list_all (\<lambda>x. set x \<subseteq> pendingKeys a) n1" "list_all (\<lambda>x. set x \<subseteq> pendingKeys b) n2"
    by (auto simp: laterRound_def)
  from assms have k: "pendingKeys b \<subseteq> pendingKeys a"
    by (simp add: laterRound_def)
  from l k have "list_all (\<lambda>x. set x \<subseteq> pendingKeys a) (n1 @ n2)"
    by (auto simp: list_all_iff)
  moreover from f have "fetched c = fetched a @ (n1 @ n2)" by simp
  ultimately have "\<exists>new. fetched c = fetched a @ new \<and> list_all (\<lambda>x. set x \<subseteq> pendingKeys a) new"
    by blast
  with assms show ?thesis
    by (auto simp: laterRound_def)
qed

lemma waitBeforeRetry_frame [simp]:
  "allUrlsMappedToIndex (waitBeforeRetry st) = allUrlsMappedToIndex st"
  "fetched (waitBeforeRetry st) = fetched st"
  "responseContents (waitBeforeRetry st) = responseContents st"
  "roundNo (waitBeforeRetry st) = roundNo st"
  by (simp_all add: waitBeforeRetry_def Let_def)

lemma waitBeforeRetry_logged: "\<exists>more. logged (waitBeforeRetry st) = logged st @ more"
  by (simp add: waitBeforeRetry_def Let_def)

lemma waitBeforeRetry_slept: "\<exists>more. slept (waitBeforeRetry st) = slept st @ more"
  by (simp add: waitBeforeRetry_def Let_def)

lemma sameRound_then_wait:
  assumes "sameRound st0 st1"
    and "fetched st0 = fetched st @ [map fst (allUrlsMappedToIndex st)]"
    and "allUrlsMappedToIndex st0 = allUrlsMappedToIndex st"
    and "\<exists>more. logged st0 = logged st @ more"
    and "slept st0 = slept st"
  shows "laterRound st (waitBeforeRetry st1)"
proof -
  from assms(1,4) obtain m1 m2 where "logged st1 = logged st0 @ m1" "logged st0 = logged st @ m2"
    by (auto simp: sameRound_def)
  moreover obtain m3 where "logged (waitBeforeRetry st1) = logged st1 @ m3"
    using waitBeforeRetry_logged by blast
  ultimately have lg: "\<exists>more. logged (waitBeforeRetry st1) = logged st @ more" by simp
  obtain m4 where "slept (waitBeforeRetry st1) = slept st1 @ m4"
    using waitBeforeRetry_slept by blast
  with assms(1,5) have sl: "\<exists>more. slept (waitBeforeRetry st1) = slept st @ more"
    by (simp add: sameRound_def)
  have "list_all (\<lambda>b. set b \<subseteq> pendingKeys st) [map fst (allUrlsMappedToIndex st)]"
    by (simp add: pendingKeys_def)
  with assms(1,2) have ft: "\<exists>new. fetched (waitBeforeRetry st1) = fetched st @ new
      \<and> list_all (\<lambda>b. set b \<subseteq> pendingKeys st) new"
    by (simp add: sameRound_def)
  from assms(1,3) have "pendingKeys (waitBeforeRetry st1) \<subseteq> pendingKeys st"
    "set (allUrlsMappedToIndex (waitBeforeRetry st1)) \<subseteq> set (allUrlsMappedToIndex st)"
    by (auto simp: sameRound_def pendingKeys_def)
  with lg sl ft show ?thesis
    unfolding laterRound_def by blast
qed

lemma sameRound_laterRound:
  assumes "sameRound st0 st1"
    and "fetched st0 = fetched st @ [map fst (allUrlsMappedToIndex st)]"
    and "allUrlsMappedToIndex st0 = allUrlsMappedToIndex st"
    and "\<exists>more. logged st0 = logged st @ more"
    and "slept st0 = slept st"
  shows "laterRound st st1"
proof -
  from assms(1,4) obtain m1 m2 where "logged st1 = logged st0 @ m1" "logged st0 = logged st @ m2"
    by (auto simp: sameRound_def)
  then have lg: "\<exists>more. logged st1 = logged st @ more" by simp
  from assms(1,5) have sl: "\<exists>more. slept st1 = slept st @ more"
    by (simp add: sameRound_def)
  have "list_all (\<lambda>b. set b \<subseteq> pendingKeys st) [map fst (allUrlsMappedToIndex st)]"
    by (simp add: pendingKeys_def)
  with assms(1,2) have ft: "\<exists>new. fetched st1 = fetched st @ new
      \<and> list_all (\<lambda>b. set b \<subseteq> pendingKeys st) new"
    by (simp add: sameRound_def)
  from assms(1,3) have "pendingKeys st1 \<subseteq> pendingKeys st"
    "set (allUrlsMappedToIndex st1) \<subseteq> set (allUrlsMappedToIndex st)"
    by (auto simp: sameRound_def pendingKeys_def)
  with lg sl ft show ?thesis
    unfolding laterRound_def by blast
qed

lemma startRound_frame:
  "fetched (startRound S st) = fetched st @ [map fst (allUrlsMappedToIndex st)]"
  "allUrlsMappedToIndex (startRound S st) = allUrlsMappedToIndex st"
  "\<exists>more. logged (startRound S st) = logged st @ more"
  "slept (startRound S st) = slept st"
  by (simp_all add: startRound_def)

lemma onFetchException_laterRound:
  "laterRound st (stateOf (onFetchException errorMessage (startRound S st)))"
proof -
  define st1 where "st1 = (startRound S st)\<lparr>logged := logged (startRound S st) @ [ConsoleLog errorMessage]\<rparr>"
  have b1: "fetched st1 = fetched st @ [map fst (allUrlsMappedToIndex st)]"
    "allUrlsMappedToIndex st1 = allUrlsMappedToIndex st"
    "\<exists>more. logged st1 = logged st @ more" "slept st1 = slept st"
    by (simp_all add: st1_def startRound_def)
  have l1: "laterRound st st1"
    by (rule sameRound_laterRound[OF sameRound_refl b1])
  have l2: "laterRound st (waitBeforeRetry st1)"
    by (rule sameRound_then_wait[OF sameRound_refl b1])
  from l1 l2 show ?thesis
    by (simp add: onFetchException_def Let_def stateOf_def st1_def[symmetric])
qed

lemma fetchRound_laterRound: "laterRound st (stateOf (fetchRound C S opts st))"
proof (cases "runtimeLimitExceeded C S opts st")
  case True
  then show ?thesis by (simp add: fetchRound_def stateOf_def)
next
  case False
  show ?thesis
  proof (cases "fetchThrows S (roundNo st) (urlsToFetch C S opts st)")
    case (Some errorMessage)
    with False onFetchException_laterRound[of st errorMessage S] show ?thesis
      by (simp add: fetchRound_def)
  next
    case None
    define res where "res = processResponses S
        (map (\<lambda>q. (wholeUrl q, respond S (roundNo st) q)) (urlsToFetch C S opts st))
        (startRound S st)"
    have sr: "sameRound (startRound S st) (stateOf res)"
      unfolding res_def by (rule processResponses_sameRound)
    have round: "fetchRound C S opts st =
        (case res of Inl thrown \<Rightarrow> Inl thrown | Inr st1 \<Rightarrow> Inr (waitBeforeRetry st1))"
      using False None by (simp add: fetchRound_def res_def)
    show ?thesis
    proof (cases res)
      case (Inl thrown)
      with sr have "sameRound (startRound S st) (snd thrown)" by (simp add: stateOf_def)
      then have "laterRound st (snd thrown)"
        by (rule sameRound_laterRound[OF _ startRound_frame])
      with round Inl show ?thesis by (simp add: stateOf_def)
    next
      case (Inr st1)
      with sr have "sameRound (startRound S st) st1" by (simp add: stateOf_def)
      then have "laterRound st (waitBeforeRetry st1)"
        by (rule sameRound_then_wait[OF _ startRound_frame])
      with round Inr show ?thesis by (simp add: stateOf_def)
    qed
  qed
qed

lemma fetchLoop_laterRound:
  "fetchLoop fuel C S opts t st = Some r \<Longrightarrow> laterRound st (stateOf r)"
proof (induction fuel arbitrary: st)
  case 0
  then show ?case by (auto simp: stateOf_def split: if_splits)
next
  case (Suc fuel)
  show ?case
  proof (cases "loopCondition C t st")
    case False
    with Suc.prems show ?thesis by (auto simp: stateOf_def)
  next
    case True
    show ?thesis
    proof (cases "fetchRound C S opts st")
      case (Inl thrown)
      with True Suc.prems fetchRound_laterRound[of st C S opts] show ?thesis
        by (auto simp: stateOf_def)
    next
      case (Inr st1)
      with fetchRound_laterRound[of st C S opts] have "laterRound st st1"
        by (simp add: stateOf_def)
      moreover from Inr True Suc.prems have "fetchLoop fuel C S opts t st1 = Some r" by simp
      then have "laterRound st1 (stateOf r)" by (rule Suc.IH)
      ultimately show ?thesis by (rule laterRound_trans)
    qed
  qed
qed

subsection \<open>The loop ends\<close>

text \<open>
  Every sleep is at least a second long, so the clock passes the retry limit after
  finitely many rounds: with enough fuel the loop, and the call, return.
\<close>

lemma fetchRound_progress:
  assumes r: "fetchRound C S opts st = Inr st'" and w: "0 < currentWaitBeforeRetryTime st"
  shows "0 < currentWaitBeforeRetryTime st'
     \<and> (allUrlsMappedToIndex st' \<noteq> [] \<longrightarrow> clock st < clock st')"
proof -
  have "\<exists>st1. st' = waitBeforeRetry st1
      \<and> currentWaitBeforeRetryTime st1 = currentWaitBeforeRetryTime st \<and> clock st \<le> clock st1"
  proof (cases "fetchThrows S (roundNo st) (urlsToFetch C S opts st)")
    case (Some errorMessage)
    with r have "st' = waitBeforeRetry ((startRound S st)\<lparr>logged := logged (startRound S st) @ [ConsoleLog errorMessage]\<rparr>)"
      by (auto simp: fetchRound_def onFetchException_def Let_def split: if_splits)
    then show ?thesis
      by (intro exI[of _ "(startRound S st)\<lparr>logged := logged (startRound S st) @ [ConsoleLog errorMessage]\<rparr>"])
        (simp add: startRound_def)
  next
    case None
    with r obtain st1 where p: "processResponses S
        (map (\<lambda>q. (wholeUrl q, respond S (roundNo st) q)) (urlsToFetch C S opts st))
        (startRound S st) = Inr st1" and e: "st' = waitBeforeRetry st1"
      by (auto simp: fetchRound_def split: if_splits sum.splits)
    from processResponses_Inr_sameRound[OF p]
    have "currentWaitBeforeRetryTime st1 = currentWaitBeforeRetryTime st" "clock st \<le> clock st1"
      by (simp_all add: sameRound_def startRound_def)
    with e show ?thesis by blast
  qed
  then obtain st1 where e: "st' = waitBeforeRetry st1"
    and w1: "currentWaitBeforeRetryTime st1 = currentWaitBeforeRetryTime st"
    and c1: "clock st \<le> clock st1"
    by blast
  from w w1 have "0 < currentWaitBeforeRetryTime (waitBeforeRetry st1)"
    by (simp add: waitBeforeRetry_def Let_def MAX_WAIT_BEFORE_RETRY_def)
  moreover from w w1 c1 have "allUrlsMappedToIndex (waitBeforeRetry st1) \<noteq> []
      \<longrightarrow> clock st < clock (waitBeforeRetry st1)"
    by (simp add: waitBeforeRetry_def Let_def)
  ultimately show ?thesis using e by simp
qed

lemma fetchLoop_stops_when_done:
  "\<not> loopCondition C t st \<Longrightarrow> fetchLoop fuel C S opts t st = Some (Inr st)"
  by (cases fuel) simp_all

lemma fetchLoop_enough_fuel_aux:
  "0 < currentWaitBeforeRetryTime st
   \<Longrightarrow> nat (int t + API_REQUEST_RETRY_LIMIT_IN_SECS C * 1000 - int (clock st)) \<le> n
   \<Longrightarrow> fetchLoop n C S opts t st \<noteq> None"
proof (induction n arbitrary: st)
  case 0
  then have "\<not> loopCondition C t st" by (simp add: loopCondition_def)
  then show ?case by (simp add: fetchLoop_stops_when_done)
next
  case (Suc n)
  show ?case
  proof (cases "loopCondition C t st")
    case False
    then show ?thesis by (simp add: fetchLoop_stops_when_done)
  next
    case True
    show ?thesis
    proof (cases "fetchRound C S opts st")
      case (Inl thrown)
      with True show ?thesis by simp
    next
      case (Inr st')
      from fetchRound_progress[OF Inr Suc.prems(1)]
      have w': "0 < currentWaitBeforeRetryTime st'"
        and c': "allUrlsMappedToIndex st' \<noteq> [] \<longrightarrow> clock st < clock st'"
        by simp_all
      have "fetchLoop n C S opts t st' \<noteq> None"
      proof (cases "allUrlsMappedToIndex st' = []")
        case True
        then have "\<not> loopCondition C t st'" by (simp add: loopCondition_def)
        then show ?thesis by (simp add: fetchLoop_stops_when_done)
      next
        case False
        with c' have "clock st < clock st'" by simp
        with Suc.prems(2) True
        have "nat (int t + API_REQUEST_RETRY_LIMIT_IN_SECS C * 1000 - int (clock st')) \<le> n"
          by (simp add: loopCondition_def)
        with w' show ?thesis by (rule Suc.IH)
      qed
      with True Inr show ?thesis by simp
    qed
  qed
qed

lemma fetchLoop_returns:
  "\<exists>fuel r. fetchLoop fuel C S opts now (initialState target allUrls now logs0) = Some r"
proof -
  have "0 < currentWaitBeforeRetryTime (initialState target allUrls now logs0)"
    by (simp add: initialState_def)
  from fetchLoop_enough_fuel_aux[OF this order_refl, of now C S opts]
  show ?thesis by blast
qed

lemma fetchAll_returns: "\<exists>fuel r. fetchAll fuel C S opts requests now = Some r"
proof (cases "fst (readCache S opts)")
  case (Some v)
  then show ?thesis by (simp add: fetchAll_def)
next
  case None
  show ?thesis
  proof (cases "prepareCall C S opts requests")
    case (Inl thrown)
    with None show ?thesis by (simp add: fetchAll_def fetchAllUncached_def)
  next
    case (Inr prepared)
    obtain target allUrls where p: "prepared = (target, allUrls)" by (cases prepared)
    obtain fuel r where "fetchLoop fuel C S opts now
        (initialState target allUrls now (snd (readCache S opts))) = Some r"
      using fetchLoop_returns by blast
    with None Inr p have "\<exists>r. fetchAll fuel C S opts requests now = Some r"
      by (cases r) (simp_all add: fetchAll_def fetchAllUncached_def)
    then show ?thesis by blast
  qed
qed

subsection \<open>Duplicate requests\<close>

lemma batchInv_frame:
  "batchInv st \<Longrightarrow> allUrlsMappedToIndex st' = allUrlsMappedToIndex st
     \<Longrightarrow> fetched st' = fetched st \<Longrightarrow> batchInv st'"
  by (simp add: batchInv_def)

lemma batchInv_delete:
  "batchInv s \<Longrightarrow>
   batchInv (s\<lparr>allUrlsMappedToIndex := AList.delete u (allUrlsMappedToIndex s)\<rparr>)"
  by (simp add: batchInv_def AList.distinct_delete)

lemma batchInv_processResponse:
  assumes "batchInv st"
  shows "batchInv (stateOf (processResponse S u r st))"
proof (cases "fst r < 200 \<or> fst r \<ge> 400")
  case True
  define st1 where "st1 = st\<lparr>logged := logged st @ [RequestFailedWithCode (fst r)]\<rparr>"
  from assms have 1: "batchInv st1" by (simp add: st1_def batchInv_def)
  then have s: "batchInv (storeResponse u (failedWithCode (fst r) (snd r)) st1)"
    by (rule batchInv_frame) simp_all
  then have 2: "batchInv ((storeResponse u (failedWithCode (fst r) (snd r)) st1)
      \<lparr>allUrlsMappedToIndex := AList.delete u
          (allUrlsMappedToIndex (storeResponse u (failedWithCode (fst r) (snd r)) st1))\<rparr>)"
    by (rule batchInv_delete)
  from 1 have 3: "batchInv (st1\<lparr>countOfFailedRequests := Suc (countOfFailedRequests st1)\<rparr>)"
    by (rule batchInv_frame) simp_all
  from True 2 3 show ?thesis
    by (simp add: processResponse_def Let_def stateOf_def st1_def[symmetric])
next
  case False
  show ?thesis
  proof (cases "jsonParse S (if snd r = [] then ''{}'' else snd r)")
    case None
    with False assms show ?thesis
      by (simp add: processResponse_def Let_def stateOf_def)
  next
    case (Some v)
    from assms have 1: "batchInv (storeResponse u v st)"
      by (rule batchInv_frame) simp_all
    then have 2: "batchInv ((storeResponse u v st)
        \<lparr>allUrlsMappedToIndex := AList.delete u (allUrlsMappedToIndex (storeResponse u v st))\<rparr>)"
      by (rule batchInv_delete)
    from 1 have 3: "batchInv ((storeResponse u v st)
        \<lparr>logged := logged (storeResponse u v st) @ [ApiErrorReturned u (getField v ''message'')],
         countOfFailedRequests := Suc (countOfFailedRequests (storeResponse u v st))\<rparr>)"
      by (rule batchInv_frame) simp_all
    from False Some assms 2 3 show ?thesis
      by (simp add: processResponse_def Let_def stateOf_def)
  qed
qed

lemma batchInv_processResponses:
  "batchInv st \<Longrightarrow> batchInv (stateOf (processResponses S rs st))"
proof (induction rs arbitrary: st)
  case Nil
  then show ?case by (simp add: stateOf_def)
next
  case (Cons p rs)
  obtain u r where p: "p = (u, r)" by (cases p)
  from Cons.prems have 1: "batchInv (stateOf (processResponse S u r st))"
    by (rule batchInv_processResponse)
  show ?case
  proof (cases "processResponse S u r st")
    case (Inl thrown)
    with 1 p show ?thesis by (simp add: stateOf_def)
  next
    case (Inr st1)
    with 1 have "batchInv st1" by (simp add: stateOf_def)
    then have "batchInv (stateOf (processResponses S rs st1))" by (rule Cons.IH)
    with Inr p show ?thesis by simp
  qed
qed

lemma batchInv_startRound: "batchInv st \<Longrightarrow> batchInv (startRound S st)"
  by (simp add: batchInv_def startRound_def)

lemma batchInv_fetchRound:
  assumes "batchInv st"
  shows "batchInv (stateOf (fetchRound C S opts st))"
proof (cases "runtimeLimitExceeded C S opts st")
  case True
  with assms show ?thesis by (simp add: fetchRound_def stateOf_def)
next
  case False
  from assms have s0: "batchInv (startRound S st)" by (rule batchInv_startRound)
  show ?thesis
  proof (cases "fetchThrows S (roundNo st) (urlsToFetch C S opts st)")
    case (Some errorMessage)
    define st1 where "st1 = (startRound S st)\<lparr>logged := logged (startRound S st) @ [ConsoleLog errorMessage]\<rparr>"
    from s0 have 1: "batchInv st1"
      by (rule batchInv_frame) (simp_all add: st1_def)
    then have 2: "batchInv (waitBeforeRetry st1)"
      by (rule batchInv_frame) simp_all
    from False Some 1 2 show ?thesis
      by (simp add: fetchRound_def onFetchException_def Let_def stateOf_def st1_def[symmetric])
  next
    case None
    define res where "res = processResponses S
        (map (\<lambda>q. (wholeUrl q, respond S (roundNo st) q)) (urlsToFetch C S opts st))
        (startRound S st)"
    from s0 have inv: "batchInv (stateOf res)"
      unfolding res_def by (rule batchInv_processResponses)
    have round: "fetchRound C S opts st =
        (case res of Inl thrown \<Rightarrow> Inl thrown | Inr st1 \<Rightarrow> Inr (waitBeforeRetry st1))"
      using False None by (simp add: fetchRound_def res_def)
    show ?thesis
    proof (cases res)
      case (Inl thrown)
      with inv round show ?thesis by (simp add: stateOf_def)
    next
      case (Inr st1)
      with inv have "batchInv st1" by (simp add: stateOf_def)
      then have "batchInv (waitBeforeRetry st1)"
        by (rule batchInv_frame) simp_all
      with round Inr show ?thesis by (simp add: stateOf_def)
    qed
  qed
qed

lemma batchInv_fetchLoop:
  "batchInv st \<Longrightarrow> fetchLoop fuel C S opts t st = Some r \<Longrightarrow> batchInv (stateOf r)"
proof (induction fuel arbitrary: st)
  case 0
  then show ?case by (auto simp: stateOf_def split: if_splits)
next
  case (Suc fuel)
  show ?case
  proof (cases "loopCondition C t st")
    case False
    with Suc.prems show ?thesis by (auto simp: stateOf_def)
  next
    case True
    from Suc.prems(1) have inv: "batchInv (stateOf (fetchRound C S opts st))"
      by (rule batchInv_fetchRound)
    show ?thesis
    proof (cases "fetchRound C S opts st")
      case (Inl thrown)
      with True Suc.prems inv show ?thesis by (auto simp: stateOf_def)
    next
      case (Inr st1)
      with inv have "batchInv st1" by (simp add: stateOf_def)
      moreover from Inr True Suc.prems have "fetchLoop fuel C S opts t st1 = Some r" by simp
      ultimately show ?thesis by (rule Suc.IH)
    qed
  qed
qed

lemma distinct_fromEntries_aux:
  "distinct (map fst acc) \<Longrightarrow>
   distinct (map fst (foldl (\<lambda>obj (k, v). AList.update k v obj) acc es))"
proof (induction es arbitrary: acc)
  case Nil
  then show ?case by simp
next
  case (Cons e es)
  obtain k v where e: "e = (k, v)" by (cases e)
  from Cons.prems have "distinct (map fst (AList.update k v acc))"
    by (rule AList.distinct_update)
  from Cons.IH[OF this] e show ?case by simp
qed

lemma batchInv_initialState: "batchInv (initialState target allUrls now logs0)"
  using distinct_fromEntries_aux[of "[]"]
  by (simp add: batchInv_def initialState_def mapUrlsToIndex_def fromEntries_def)

lemma each_query_once_per_batch:
  assumes "fetchLoop fuel C S opts now (initialState target allUrls now logs0) = Some r"
  shows "list_all distinct (fetched (stateOf r))"
  using batchInv_fetchLoop[OF batchInv_initialState assms]
  by (simp add: batchInv_def)

text \<open>
  C2. The claim: two positions with the same method and parameters both receive the
  resolved payload, with one outbound fetch for their query per round. What the code does
  for the same request at positions 0 and 1, answered with status 200: the object built
  by \<open>Object.fromEntries\<close> keeps one index per query, the last one, so one request is
  fetched (no batch ever holds a query twice, \<open>each_query_once_per_batch\<close>) and its
  payload is written at position 1 only; position 0 of the returned array is a hole.
\<close>

theorem duplicate_requests_first_position_unset:
  "fetchAll 5 (exampleConfig (Some 600)) (exampleServices (\<lambda>r u. (200, versionBody)))
      (exampleOptions False) [versionRequest, versionRequest] 0
   = Some \<lparr>outcome = Inr (Fetched [None, Some versionPayload]),
           batches = [[versionQuery]], sleeps = [],
           logs = [DebugRequests [versionQuery, versionQuery]]\<rparr>"
  by code_simp

subsection \<open>Finalization\<close>

lemma set_map_filter_iff:
  "y \<in> set (List.map_filter g xs) \<longleftrightarrow> (\<exists>x \<in> set xs. g x = Some y)"
  by (induction xs) (auto simp: List.map_filter_simps split: option.splits)

lemma errorResponses_iff:
  "(i, v) \<in> set (errorResponses rc) \<longleftrightarrow>
     i < length rc \<and> rc ! i = Some v \<and> getField v ''result'' = Some (JStr ''error'')"
proof -
  have "(i, v) \<in> set (List.map_filter (\<lambda>(i, entry). map_option (Pair i) entry)
            (zip [0..<length rc] rc))
      \<longleftrightarrow> i < length rc \<and> rc ! i = Some v"
  proof
    assume "(i, v) \<in> set (List.map_filter (\<lambda>(i, entry). map_option (Pair i) entry)
            (zip [0..<length rc] rc))"
    then obtain p where p: "p \<in> set (zip [0..<length rc] rc)"
      and g: "(\<lambda>(i, entry). map_option (Pair i) entry) p = Some (i, v)"
      by (auto simp: set_map_filter_iff)
    from g have "p = (i, Some v)" by (cases p) auto
    with p obtain k where "[0..<length rc] ! k = i" "rc ! k = Some v" "k < length rc"
      by (auto simp: in_set_zip)
    then show "i < length rc \<and> rc ! i = Some v" by simp
  next
    assume a: "i < length rc \<and> rc ! i = Some v"
    then have "(i, Some v) \<in> set (zip [0..<length rc] rc)"
      by (auto simp: in_set_zip intro!: exI[of _ i])
    then show "(i, v) \<in> set (List.map_filter (\<lambda>(i, entry). map_option (Pair i) entry)
            (zip [0..<length rc] rc))"
      by (auto simp: set_map_filter_iff intro!: bexI[of _ "(i, Some v)"])
  qed
  then show ?thesis
    by (auto simp: errorResponses_def)
qed

lemma length_arraySet: "length (arraySet xs i v) = max (length xs) (Suc i)"
  by (auto simp: arraySet_def)

lemma indexInv_storeResponse: "indexInv n st \<Longrightarrow> indexInv n (storeResponse u v st)"
proof -
  assume inv: "indexInv n st"
  show ?thesis
  proof (cases "map_of (allUrlsMappedToIndex st) u")
    case None
    with inv show ?thesis by (simp add: storeResponse_def)
  next
    case (Some i)
    then have "(u, i) \<in> set (allUrlsMappedToIndex st)" by (rule map_of_SomeD)
    with inv have "i < n" by (auto simp: indexInv_def list_all_iff)
    with inv Some show ?thesis
      by (simp add: storeResponse_def indexInv_def length_arraySet)
  qed
qed

lemma indexInv_subset:
  "indexInv n st \<Longrightarrow> set (allUrlsMappedToIndex st') \<subseteq> set (allUrlsMappedToIndex st)
     \<Longrightarrow> responseContents st' = responseContents st \<Longrightarrow> indexInv n st'"
  by (auto simp: indexInv_def list_all_iff)

lemma indexInv_delete:
  "indexInv n s \<Longrightarrow>
   indexInv n (s\<lparr>allUrlsMappedToIndex := AList.delete u (allUrlsMappedToIndex s)\<rparr>)"
  using set_delete_subset[of u "allUrlsMappedToIndex s"]
  by (auto simp: indexInv_def list_all_iff)

lemma indexInv_updates [simp]:
  "indexInv n (s\<lparr>logged := f\<rparr>) = indexInv n s"
  "indexInv n (s\<lparr>countOfFailedRequests := g\<rparr>) = indexInv n s"
  by (simp_all add: indexInv_def)

lemma indexInv_processResponse:
  assumes "indexInv n st"
  shows "indexInv n (stateOf (processResponse S u r st))"
proof (cases "fst r < 200 \<or> fst r \<ge> 400")
  case True
  define st1 where "st1 = st\<lparr>logged := logged st @ [RequestFailedWithCode (fst r)]\<rparr>"
  from assms have 1: "indexInv n st1" by (simp add: st1_def)
  then have "indexInv n (storeResponse u (failedWithCode (fst r) (snd r)) st1)"
    by (rule indexInv_storeResponse)
  then have 2: "indexInv n ((storeResponse u (failedWithCode (fst r) (snd r)) st1)
      \<lparr>allUrlsMappedToIndex := AList.delete u
          (allUrlsMappedToIndex (storeResponse u (failedWithCode (fst r) (snd r)) st1))\<rparr>)"
    by (rule indexInv_delete)
  from True 1 2 show ?thesis
    by (simp add: processResponse_def Let_def stateOf_def st1_def[symmetric])
next
  case False
  show ?thesis
  proof (cases "jsonParse S (if snd r = [] then ''{}'' else snd r)")
    case None
    with False assms show ?thesis
      by (simp add: processResponse_def Let_def stateOf_def)
  next
    case (Some v)
    from assms have 1: "indexInv n (storeResponse u v st)"
      by (rule indexInv_storeResponse)
    then have 2: "indexInv n ((storeResponse u v st)
        \<lparr>allUrlsMappedToIndex := AList.delete u (allUrlsMappedToIndex (storeResponse u v st))\<rparr>)"
      by (rule indexInv_delete)
    from False Some assms 1 2 show ?thesis
      by (simp add: processResponse_def Let_def stateOf_def)
  qed
qed

lemma indexInv_processResponses:
  "indexInv n st \<Longrightarrow> indexInv n (stateOf (processResponses S rs st))"
proof (induction rs arbitrary: st)
  case Nil
  then show ?case by (simp add: stateOf_def)
next
  case (Cons p rs)
  obtain u r where p: "p = (u, r)" by (cases p)
  from Cons.prems have 1: "indexInv n (stateOf (processResponse S u r st))"
    by (rule indexInv_processResponse)
  show ?case
  proof (cases "processResponse S u r st")
    case (Inl thrown)
    with 1 p show ?thesis by (simp add: stateOf_def)
  next
    case (Inr st1)
    with 1 have "indexInv n st1" by (simp add: stateOf_def)
    then have "indexInv n (stateOf (processResponses S rs st1))" by (rule Cons.IH)
    with Inr p show ?thesis by simp
  qed
qed

lemma indexInv_frame:
  "indexInv n st \<Longrightarrow> allUrlsMappedToIndex st' = allUrlsMappedToIndex st
     \<Longrightarrow> responseContents st' = responseContents st \<Longrightarrow> indexInv n st'"
  by (simp add: indexInv_def)

lemma indexInv_fetchRound:
  assumes "indexInv n st"
  shows "indexInv n (stateOf (fetchRound C S opts st))"
proof (cases "runtimeLimitExceeded C S opts st")
  case True
  with assms show ?thesis by (simp add: fetchRound_def stateOf_def)
next
  case False
  from assms have s0: "indexInv n (startRound S st)"
    by (rule indexInv_frame) (simp_all add: startRound_def)
  show ?thesis
  proof (cases "fetchThrows S (roundNo st) (urlsToFetch C S opts st)")
    case (Some errorMessage)
    define st1 where "st1 = (startRound S st)\<lparr>logged := logged (startRound S st) @ [ConsoleLog errorMessage]\<rparr>"
    from s0 have 1: "indexInv n st1"
      by (rule indexInv_frame) (simp_all add: st1_def)
    then have 2: "indexInv n (waitBeforeRetry st1)"
      by (rule indexInv_frame) simp_all
    from False Some 1 2 show ?thesis
      by (simp add: fetchRound_def onFetchException_def Let_def stateOf_def st1_def[symmetric])
  next
    case None
    define res where "res = processResponses S
        (map (\<lambda>q. (wholeUrl q, respond S (roundNo st) q)) (urlsToFetch C S opts st))
        (startRound S st)"
    from s0 have inv: "indexInv n (stateOf res)"
      unfolding res_def by (rule indexInv_processResponses)
    have round: "fetchRound C S opts st =
        (case res of Inl thrown \<Rightarrow> Inl thrown | Inr st1 \<Rightarrow> Inr (waitBeforeRetry st1))"
      using False None by (simp add: fetchRound_def res_def)
    show ?thesis
    proof (cases res)
      case (Inl thrown)
      with inv round show ?thesis by (simp add: stateOf_def)
    next
      case (Inr st1)
      with inv have "indexInv n st1" by (simp add: stateOf_def)
      then have "indexInv n (waitBeforeRetry st1)"
        by (rule indexInv_frame) simp_all
      with round Inr show ?thesis by (simp add: stateOf_def)
    qed
  qed
qed

lemma indexInv_fetchLoop:
  "indexInv n st \<Longrightarrow> fetchLoop fuel C S opts t st = Some r \<Longrightarrow> indexInv n (stateOf r)"
proof (induction fuel arbitrary: st)
  case 0
  then show ?case by (auto simp: stateOf_def split: if_splits)
next
  case (Suc fuel)
  show ?case
  proof (cases "loopCondition C t st")
    case False
    with Suc.prems show ?thesis by (auto simp: stateOf_def)
  next
    case True
    from Suc.prems(1) have inv: "indexInv n (stateOf (fetchRound C S opts st))"
      by (rule indexInv_fetchRound)
    show ?thesis
    proof (cases "fetchRound C S opts st")
      case (Inl thrown)
      with True Suc.prems inv show ?thesis by (auto simp: stateOf_def)
    next
      case (Inr st1)
      with inv have "indexInv n st1" by (simp add: stateOf_def)
      moreover from Inr True Suc.prems have "fetchLoop fuel C S opts t st1 = Some r" by simp
      ultimately show ?thesis by (rule Suc.IH)
    qed
  qed
qed

lemma set_update_subset: "set (AList.update k v al) \<subseteq> insert (k, v) (set al)"
  by (induction al) auto

lemma set_fromEntries_aux:
  "set (foldl (\<lambda>obj (k, v). AList.update k v obj) acc es) \<subseteq> set acc \<union> set es"
proof (induction es arbitrary: acc)
  case Nil
  show ?case by simp
next
  case (Cons e es)
  obtain k v where e: "e = (k, v)" by (cases e)
  from Cons.IH[of "AList.update k v acc"] set_update_subset[of k v acc] e
  show ?case by auto
qed

lemma set_mapUrlsToIndex: "set (mapUrlsToIndex allUrls) \<subseteq> set (zip allUrls [0..<length allUrls])"
  using set_fromEntries_aux[of "[]" "zip allUrls [0..<length allUrls]"]
  by (simp add: mapUrlsToIndex_def fromEntries_def)

lemma indexInv_initialState:
  "indexInv (length allUrls) (initialState target allUrls now logs0)"
proof -
  have "\<And>p. p \<in> set (mapUrlsToIndex allUrls) \<Longrightarrow> snd p < length allUrls"
    using set_mapUrlsToIndex[of allUrls] by (auto dest!: set_zip_rightD)
  then show ?thesis
    by (simp add: indexInv_def initialState_def list_all_iff)
qed

lemma those_length: "those xs = Some ys \<Longrightarrow> length ys = length xs"
  by (induction xs arbitrary: ys) (auto split: option.splits)

lemma prepareCall_length:
  "prepareCall C S opts requests = Inr (target, allUrls) \<Longrightarrow> length allUrls = length requests"
  using those_length[of "map (buildQuery C S) requests" allUrls]
  by (auto simp: prepareCall_def split: if_splits sum.splits option.splits)

text \<open>
  C3. The claim: with \<open>throwOnFailedRequest\<close> set, finalization raises when at least
  one final entry is unresolved or an error after all retries. What the code does with
  \<open>throwOnFailedRequest\<close> set for one request that is answered 503 in every round until
  the retry limit (here one second) has passed: the round counts the request as failed and
  logs that one request failed, the entry of the request is never written, and the call
  returns the empty array without raising. Finalization looks only at the entries
  written, so a request that is still pending when the time is up goes unnoticed.
\<close>

theorem unresolved_request_not_thrown:
  "fetchAll 5 (exampleConfig (Some 1)) (exampleServices (\<lambda>r u. (503, [])))
      (exampleOptions True) [versionRequest] 0
   = Some \<lparr>outcome = Inr (Fetched []), batches = [[versionQuery]], sleeps = [1000],
       logs = [DebugRequests [versionQuery], RequestFailedWithCode 503, RetryNotice 1 1000]\<rparr>"
  by code_simp

text \<open>
  What finalization does raise on: when the loop has ended without an exception,
  finalization raises if and only if \<open>throwOnFailedRequest\<close> is set and at least one
  entry of the response array is an error entry (its \<open>result\<close> is the string
  \<open>error\<close>). With exactly one error entry the error carries the method and the
  parameters of the request at that entry's index and the entry's message; with more than
  one it carries only their number.
\<close>

lemma finalize_throws_iff_error_entry:
  assumes prepared: "prepareCall C S opts requests = Inr (target, allUrls)"
    and loop: "fetchLoop fuel C S opts now (initialState target allUrls now logs0) = Some (Inr st)"
  shows
    "(isl (outcome (finalize S opts requests st))
        \<longleftrightarrow> throwOnFailedRequest opts
            \<and> (\<exists>i v. i < length (responseContents st) \<and> responseContents st ! i = Some v
                   \<and> getField v ''result'' = Some (JStr ''error'')))
     \<and> (throwOnFailedRequest opts \<and> errorResponses (responseContents st) = [(i, v)] \<longrightarrow>
          i < length requests
          \<and> outcome (finalize S opts requests st)
              = Inl (ApiMethodFailed (reqMethod (requests ! i)) (reqParams (requests ! i))
                       (getField v ''message'')))
     \<and> (throwOnFailedRequest opts \<and> 1 < length (errorResponses (responseContents st)) \<longrightarrow>
          outcome (finalize S opts requests st)
            = Inl (ApiMethodsFailed (length (errorResponses (responseContents st)))))"
proof (intro conjI impI)
  define rc where "rc = responseContents st"
  have ex: "(\<exists>i v. i < length rc \<and> rc ! i = Some v \<and> getField v ''result'' = Some (JStr ''error''))
      \<longleftrightarrow> errorResponses rc \<noteq> []"
  proof
    assume "\<exists>i v. i < length rc \<and> rc ! i = Some v \<and> getField v ''result'' = Some (JStr ''error'')"
    then obtain i v where "(i, v) \<in> set (errorResponses rc)"
      using errorResponses_iff[of _ _ rc] by blast
    then show "errorResponses rc \<noteq> []" by auto
  next
    assume "errorResponses rc \<noteq> []"
    then obtain p where "p \<in> set (errorResponses rc)" by (cases "errorResponses rc") auto
    then show "\<exists>i v. i < length rc \<and> rc ! i = Some v \<and> getField v ''result'' = Some (JStr ''error'')"
      using errorResponses_iff[of "fst p" "snd p" rc] by auto
  qed
  have thr: "isl (outcome (finalize S opts requests st))
      \<longleftrightarrow> throwOnFailedRequest opts \<and> errorResponses rc \<noteq> []"
    by (cases "errorResponses rc")
      (auto simp: finalize_def checkFailedRequests_def Let_def rc_def split: option.splits)
  from thr ex show "isl (outcome (finalize S opts requests st))
        \<longleftrightarrow> throwOnFailedRequest opts
            \<and> (\<exists>i v. i < length (responseContents st) \<and> responseContents st ! i = Some v
                   \<and> getField v ''result'' = Some (JStr ''error''))"
    by (simp add: rc_def)
next
  assume a: "throwOnFailedRequest opts \<and> errorResponses (responseContents st) = [(i, v)]"
  from indexInv_fetchLoop[OF indexInv_initialState loop] prepareCall_length[OF prepared]
  have "length (responseContents st) \<le> length requests"
    by (simp add: indexInv_def stateOf_def)
  moreover from a have "(i, v) \<in> set (errorResponses (responseContents st))" by simp
  then have "i < length (responseContents st)" by (simp add: errorResponses_iff)
  ultimately show i: "i < length requests" by simp
  with a show "outcome (finalize S opts requests st)
              = Inl (ApiMethodFailed (reqMethod (requests ! i)) (reqParams (requests ! i))
                       (getField v ''message''))"
    by (simp add: finalize_def checkFailedRequests_def Let_def)
next
  assume "throwOnFailedRequest opts \<and> 1 < length (errorResponses (responseContents st))"
  then show "outcome (finalize S opts requests st)
            = Inl (ApiMethodsFailed (length (errorResponses (responseContents st))))"
    by (simp add: finalize_def checkFailedRequests_def Let_def)
qed

lemma finalize_throws_example:
  "\<exists>st. fetchLoop 5 (exampleConfig (Some 2)) (exampleServices (\<lambda>r u. (404, ''nope'')))
          (exampleOptions True) 0 (initialState exampleTarget [versionQuery] 0 []) = Some (Inr st)
      \<and> errorResponses (responseContents st) = [(0, failedWithCode 404 ''nope'')]
      \<and> outcome (finalize (exampleServices (\<lambda>r u. (404, ''nope''))) (exampleOptions True)
                   [versionRequest] st)
          = Inl (ApiMethodFailed ''API.getMatomoVersion'' None
                   (Some (JStr ''Matomo server failed with code 404. Truncated response: nope'')))"
proof -
  define st where "st =
     \<lparr>allUrlsMappedToIndex = [],
      responseContents = [Some (failedWithCode 404 ''nope'')],
      currentWaitBeforeRetryTime = 1000, countOfFailedRequests = 0,
      baseUrl = ''https://matomo.example/index.php?'', authHeaders = [],
      clock = 0, roundNo = 1,
      fetched = [[versionQuery]], slept = [],
      logged = [DebugRequests [versionQuery], RequestFailedWithCode 404]\<rparr>"
  have prepared: "prepareCall (exampleConfig (Some 2)) (exampleServices (\<lambda>r u. (404, ''nope'')))
      (exampleOptions True) [versionRequest] = Inr (exampleTarget, [versionQuery])"
    by code_simp
  have run: "fetchLoop 5 (exampleConfig (Some 2)) (exampleServices (\<lambda>r u. (404, ''nope'')))
          (exampleOptions True) 0 (initialState exampleTarget [versionQuery] 0 []) = Some (Inr st)"
    unfolding st_def by code_simp
  have errs: "errorResponses (responseContents st) = [(0, failedWithCode 404 ''nope'')]"
    unfolding st_def by code_simp
  have strict: "throwOnFailedRequest (exampleOptions True)"
    by (simp add: exampleOptions_def)
  have msg: "getField (failedWithCode 404 ''nope'') ''message''
      = Some (JStr ''Matomo server failed with code 404. Truncated response: nope'')"
    by code_simp
  have req: "reqMethod ([versionRequest] ! 0) = ''API.getMatomoVersion''"
    "reqParams ([versionRequest] ! 0) = None"
    by (simp_all add: versionRequest_def)
  from finalize_throws_iff_error_entry [OF prepared run, of 0 "failedWithCode 404 ''nope''"]
    strict errs msg req
  have "outcome (finalize (exampleServices (\<lambda>r u. (404, ''nope''))) (exampleOptions True)
                   [versionRequest] st)
          = Inl (ApiMethodFailed ''API.getMatomoVersion'' None
                   (Some (JStr ''Matomo server failed with code 404. Truncated response: nope'')))"
    by simp
  with run errs show ?thesis by blast
qed

subsection \<open>Status codes\<close>

lemma map_of_delete_keys: "k \<notin> fst ` set (AList.delete k al)"
  by (induction al) (auto simp: AList.delete_eq)


text \<open>
  What one response does to the state, by the cases of \<open>processResponse\<close>, and what a
  list of responses does to a request that is not among them.
\<close>

lemma entryAt_arraySet_same [simp]: "entryAt (arraySet xs i v) i = Some v"
  by (simp add: entryAt_def arraySet_def nth_append)



lemma allUrlsMappedToIndex_storeResponse [simp]:
  "allUrlsMappedToIndex (storeResponse k w s) = allUrlsMappedToIndex s"
  by (simp add: storeResponse_def split: option.splits)










lemma fetchLoop_passes_round:
  "roundStart n C S opts t st0 = Some st \<Longrightarrow>
   fetchLoop (n + Suc fuel) C S opts t st0 =
     (case fetchRound C S opts st of
        Inl thrown \<Rightarrow> Some (Inl thrown)
      | Inr st' \<Rightarrow> fetchLoop fuel C S opts t st')"
proof (induction n arbitrary: st0)
  case 0
  then show ?case by (auto split: if_splits sum.splits)
next
  case (Suc n)
  from Suc.prems obtain st1 where c: "loopCondition C t st0"
    and r: "fetchRound C S opts st0 = Inr st1"
    and rest: "roundStart n C S opts t st1 = Some st"
    by (auto split: if_splits sum.splits)
  from Suc.IH[OF rest] c r show ?case by simp
qed

lemma fetchAll_throws_what_round_throws:
  assumes miss: "fst (readCache S opts) = None"
    and prepared: "prepareCall C S opts requests = Inr (target, allUrls)"
    and start: "roundStart n C S opts now
                  (initialState target allUrls now (snd (readCache S opts))) = Some st"
    and thrown: "fetchRound C S opts st = Inl (e, st1)"
  shows "\<exists>r. fetchAll (n + Suc fuel) C S opts requests now = Some r \<and> outcome r = Inl e"
  using fetchLoop_passes_round[OF start, of fuel] miss prepared thrown
  by (simp add: fetchAll_def fetchAllUncached_def)


lemma startRound_same [simp]:
  "allUrlsMappedToIndex (startRound S st) = allUrlsMappedToIndex st"
  "responseContents (startRound S st) = responseContents st"
  by (simp_all add: startRound_def)

lemma waitBeforeRetry_same [simp]:
  "allUrlsMappedToIndex (waitBeforeRetry st) = allUrlsMappedToIndex st"
  "responseContents (waitBeforeRetry st) = responseContents st"
  "fetched (waitBeforeRetry st) = fetched st"
  by (simp_all add: waitBeforeRetry_def Let_def)







subsection \<open>Backoff\<close>

lemma waitBeforeRetry_step:
  "(if allUrlsMappedToIndex st \<noteq> []
    then slept (waitBeforeRetry st) = slept st @ [currentWaitBeforeRetryTime st]
       \<and> currentWaitBeforeRetryTime (waitBeforeRetry st)
           = min (2 * currentWaitBeforeRetryTime st) (MAX_WAIT_BEFORE_RETRY * 1000)
    else slept (waitBeforeRetry st) = slept st
       \<and> currentWaitBeforeRetryTime (waitBeforeRetry st) = currentWaitBeforeRetryTime st)"
  by (simp add: waitBeforeRetry_def Let_def mult.commute)

lemma backoffInv_waitBeforeRetry:
  assumes "backoffInv st"
  shows "backoffInv (waitBeforeRetry st)"
proof (cases "allUrlsMappedToIndex st = []")
  case True
  with assms show ?thesis by (simp add: waitBeforeRetry_def Let_def)
next
  case False
  define n where "n = length (slept st)"
  from assms have w: "currentWaitBeforeRetryTime st = min (1000 * 2 ^ n) 32000"
    and s: "slept st = map (\<lambda>k. min (1000 * 2 ^ k) 32000) [0..<n]"
    by (simp_all add: backoffInv_def n_def)
  from False waitBeforeRetry_step[of st]
  have s': "slept (waitBeforeRetry st) = slept st @ [currentWaitBeforeRetryTime st]"
    and w': "currentWaitBeforeRetryTime (waitBeforeRetry st)
        = min (2 * currentWaitBeforeRetryTime st) (MAX_WAIT_BEFORE_RETRY * 1000)"
    by simp_all
  have len: "length (slept (waitBeforeRetry st)) = Suc n"
    by (simp add: s' n_def)
  have "min (2 * min (1000 * 2 ^ n) 32000) (32000::nat) = min (1000 * 2 ^ Suc n) 32000"
    by (simp add: min_def)
  with w w' have 1: "currentWaitBeforeRetryTime (waitBeforeRetry st) = min (1000 * 2 ^ Suc n) 32000"
    by (simp add: MAX_WAIT_BEFORE_RETRY_def)
  from s s' w have 2: "slept (waitBeforeRetry st) = map (\<lambda>k. min (1000 * 2 ^ k) 32000) [0..<Suc n]"
    by simp
  from 1 2 len show ?thesis
    unfolding backoffInv_def by simp
qed

lemma backoffInv_cong:
  "backoffInv st \<Longrightarrow> slept st' = slept st
    \<Longrightarrow> currentWaitBeforeRetryTime st' = currentWaitBeforeRetryTime st \<Longrightarrow> backoffInv st'"
  by (simp add: backoffInv_def)

lemma fetchRound_shape:
  "fetchRound C S opts st = Inr st' \<Longrightarrow>
   \<exists>st1. st' = waitBeforeRetry st1 \<and> slept st1 = slept st
      \<and> currentWaitBeforeRetryTime st1 = currentWaitBeforeRetryTime st"
proof -
  assume r: "fetchRound C S opts st = Inr st'"
  show ?thesis
  proof (cases "fetchThrows S (roundNo st) (urlsToFetch C S opts st)")
    case (Some errorMessage)
    with r have "st' = waitBeforeRetry ((startRound S st)\<lparr>logged := logged (startRound S st) @ [ConsoleLog errorMessage]\<rparr>)"
      by (auto simp: fetchRound_def onFetchException_def Let_def split: if_splits)
    then show ?thesis
      by (intro exI[of _ "(startRound S st)\<lparr>logged := logged (startRound S st) @ [ConsoleLog errorMessage]\<rparr>"])
        (simp add: startRound_def)
  next
    case None
    with r obtain st1 where p: "processResponses S
        (map (\<lambda>q. (wholeUrl q, respond S (roundNo st) q)) (urlsToFetch C S opts st))
        (startRound S st) = Inr st1" and e: "st' = waitBeforeRetry st1"
      by (auto simp: fetchRound_def split: if_splits sum.splits)
    from processResponses_Inr_sameRound[OF p]
    have "sameRound (startRound S st) st1" .
    then have "slept st1 = slept st" "currentWaitBeforeRetryTime st1 = currentWaitBeforeRetryTime st"
      by (simp_all add: sameRound_def startRound_def)
    with e show ?thesis by blast
  qed
qed

lemma fetchRound_thrown_shape:
  "fetchRound C S opts st = Inl thrown \<Longrightarrow>
   slept (snd thrown) = slept st
     \<and> currentWaitBeforeRetryTime (snd thrown) = currentWaitBeforeRetryTime st"
proof -
  assume r: "fetchRound C S opts st = Inl thrown"
  show ?thesis
  proof (cases "runtimeLimitExceeded C S opts st")
    case True
    with r show ?thesis by (auto simp: fetchRound_def)
  next
    case False
    show ?thesis
    proof (cases "fetchThrows S (roundNo st) (urlsToFetch C S opts st)")
      case (Some errorMessage)
      with r False show ?thesis
        by (auto simp: fetchRound_def onFetchException_def Let_def startRound_def split: if_splits)
    next
      case None
      with r False have p: "processResponses S
          (map (\<lambda>q. (wholeUrl q, respond S (roundNo st) q)) (urlsToFetch C S opts st))
          (startRound S st) = Inl thrown"
        by (auto simp: fetchRound_def split: sum.splits)
      from processResponses_Inl_sameRound[OF p]
      have "sameRound (startRound S st) (snd thrown)" .
      then show ?thesis by (simp add: sameRound_def startRound_def)
    qed
  qed
qed

lemma backoffInv_fetchRound:
  assumes "backoffInv st"
  shows "backoffInv (stateOf (fetchRound C S opts st))"
proof (cases "fetchRound C S opts st")
  case (Inl thrown)
  from fetchRound_thrown_shape[OF Inl] assms have "backoffInv (snd thrown)"
    by (auto intro: backoffInv_cong)
  with Inl show ?thesis by (simp add: stateOf_def)
next
  case (Inr st')
  from fetchRound_shape[OF Inr] obtain st1 where "st' = waitBeforeRetry st1"
    "slept st1 = slept st" "currentWaitBeforeRetryTime st1 = currentWaitBeforeRetryTime st"
    by blast
  with assms have "backoffInv st'"
    by (auto intro: backoffInv_waitBeforeRetry backoffInv_cong)
  with Inr show ?thesis by (simp add: stateOf_def)
qed

lemma backoffInv_fetchLoop:
  "backoffInv st \<Longrightarrow> fetchLoop fuel C S opts t st = Some r \<Longrightarrow> backoffInv (stateOf r)"
proof (induction fuel arbitrary: st)
  case 0
  then show ?case by (auto simp: stateOf_def split: if_splits)
next
  case (Suc fuel)
  show ?case
  proof (cases "loopCondition C t st")
    case False
    with Suc.prems show ?thesis by (auto simp: stateOf_def)
  next
    case True
    from Suc.prems(1) have inv: "backoffInv (stateOf (fetchRound C S opts st))"
      by (rule backoffInv_fetchRound)
    show ?thesis
    proof (cases "fetchRound C S opts st")
      case (Inl thrown)
      with True Suc.prems inv show ?thesis by (auto simp: stateOf_def)
    next
      case (Inr st1)
      with inv have "backoffInv st1" by (simp add: stateOf_def)
      moreover from Inr True Suc.prems have "fetchLoop fuel C S opts t st1 = Some r" by simp
      ultimately show ?thesis by (rule Suc.IH)
    qed
  qed
qed

lemma backoffInv_initialState: "backoffInv (initialState target allUrls now logs0)"
  by (simp add: backoffInv_def initialState_def)

text \<open>
  C7. A round that ends with requests still pending sleeps for the current interval and
  then sets the interval to \<open>min (2 * interval) cap\<close>, a round that ends with none
  pending does neither; the cap is 32000 milliseconds. Hence, however the loop of a call
  ends, its sleeps were \<open>1000 * 2 ^ k\<close> capped at 32000 for \<open>k = 0, 1, 2, ...\<close> and
  the interval is within the cap.
\<close>

theorem backoff_doubles_up_to_cap:
  "(fetchRound C S opts st = Inr st' \<longrightarrow>
      (if allUrlsMappedToIndex st' \<noteq> []
       then slept st' = slept st @ [currentWaitBeforeRetryTime st]
          \<and> currentWaitBeforeRetryTime st'
              = min (2 * currentWaitBeforeRetryTime st) (MAX_WAIT_BEFORE_RETRY * 1000)
       else slept st' = slept st
          \<and> currentWaitBeforeRetryTime st' = currentWaitBeforeRetryTime st))
   \<and> (fetchLoop fuel C S opts now (initialState target allUrls now logs0) = Some r \<longrightarrow>
        slept (stateOf r)
          = map (\<lambda>k. min (1000 * 2 ^ k) (MAX_WAIT_BEFORE_RETRY * 1000))
              [0..<length (slept (stateOf r))]
        \<and> currentWaitBeforeRetryTime (stateOf r)
            = min (1000 * 2 ^ length (slept (stateOf r))) (MAX_WAIT_BEFORE_RETRY * 1000)
        \<and> currentWaitBeforeRetryTime (stateOf r) \<le> MAX_WAIT_BEFORE_RETRY * 1000)
   \<and> MAX_WAIT_BEFORE_RETRY * 1000 = 32000"
proof (intro conjI impI)
  assume r: "fetchRound C S opts st = Inr st'"
  from fetchRound_shape[OF r] obtain st1 where e: "st' = waitBeforeRetry st1"
    "slept st1 = slept st" "currentWaitBeforeRetryTime st1 = currentWaitBeforeRetryTime st"
    by blast
  with waitBeforeRetry_step[of st1]
  show "if allUrlsMappedToIndex st' \<noteq> []
       then slept st' = slept st @ [currentWaitBeforeRetryTime st]
          \<and> currentWaitBeforeRetryTime st'
              = min (2 * currentWaitBeforeRetryTime st) (MAX_WAIT_BEFORE_RETRY * 1000)
       else slept st' = slept st
          \<and> currentWaitBeforeRetryTime st' = currentWaitBeforeRetryTime st"
    by (simp split: if_splits)
next
  assume l: "fetchLoop fuel C S opts now (initialState target allUrls now logs0) = Some r"
  from backoffInv_fetchLoop[OF backoffInv_initialState l]
  have inv: "backoffInv (stateOf r)" .
  from inv show "slept (stateOf r)
          = map (\<lambda>k. min (1000 * 2 ^ k) (MAX_WAIT_BEFORE_RETRY * 1000))
              [0..<length (slept (stateOf r))]"
    by (simp add: backoffInv_def MAX_WAIT_BEFORE_RETRY_def)
  from inv show w: "currentWaitBeforeRetryTime (stateOf r)
            = min (1000 * 2 ^ length (slept (stateOf r))) (MAX_WAIT_BEFORE_RETRY * 1000)"
    by (simp add: backoffInv_def MAX_WAIT_BEFORE_RETRY_def)
  show "currentWaitBeforeRetryTime (stateOf r) \<le> MAX_WAIT_BEFORE_RETRY * 1000"
    by (subst w) simp
next
  show "MAX_WAIT_BEFORE_RETRY * 1000 = 32000"
    by (simp add: MAX_WAIT_BEFORE_RETRY_def)
qed

theorem backoff_doubles_up_to_cap_witness:
  "\<exists>r. fetchLoop 7 (exampleConfig (Some 70)) (exampleServices (\<lambda>r u. (503, [])))
          (exampleOptions False) 0 (initialState exampleTarget [versionQuery] 0 []) = Some r
      \<and> slept (stateOf r) = [1000, 2000, 4000, 8000, 16000, 32000, 32000]
      \<and> currentWaitBeforeRetryTime (stateOf r) \<le> MAX_WAIT_BEFORE_RETRY * 1000"
proof -
  have "map_option (\<lambda>r. slept (stateOf r))
      (fetchLoop 7 (exampleConfig (Some 70)) (exampleServices (\<lambda>r u. (503, [])))
          (exampleOptions False) 0 (initialState exampleTarget [versionQuery] 0 []))
      = Some [1000, 2000, 4000, 8000, 16000, 32000, 32000]"
    by code_simp
  then obtain r where run: "fetchLoop 7 (exampleConfig (Some 70)) (exampleServices (\<lambda>r u. (503, [])))
          (exampleOptions False) 0 (initialState exampleTarget [versionQuery] 0 []) = Some r"
    and sl: "slept (stateOf r) = [1000, 2000, 4000, 8000, 16000, 32000, 32000]"
    by auto
  from backoff_doubles_up_to_cap [of "exampleConfig (Some 70)" "exampleServices (\<lambda>r u. (503, []))"
      "exampleOptions False" "initialState exampleTarget [versionQuery] 0 []" "initialState exampleTarget [versionQuery] 0 []"
      7 0 exampleTarget "[versionQuery]" "[]" r] run
  have "currentWaitBeforeRetryTime (stateOf r) \<le> MAX_WAIT_BEFORE_RETRY * 1000"
    by blast
  with run sl show ?thesis by blast
qed

subsection \<open>Cache\<close>

lemma finalize_keeps_log: "\<exists>more. logs (finalize S opts requests st) = logged st @ more"
  by (simp add: finalize_def split: option.splits)

lemma fetchAllUncached_keeps_log:
  assumes "fetchAllUncached fuel C S opts requests now logs0 = Some r"
  shows "\<exists>more. logs r = logs0 @ more"
proof (cases "prepareCall C S opts requests")
  case (Inl thrown)
  with assms show ?thesis by (auto simp: fetchAllUncached_def)
next
  case (Inr prepared)
  obtain target allUrls where p: "prepared = (target, allUrls)" by (cases prepared)
  define init where "init = initialState target allUrls now logs0"
  from assms Inr p obtain res where run: "fetchLoop fuel C S opts now init = Some res"
    by (auto simp: fetchAllUncached_def init_def split: option.splits)
  from fetchLoop_laterRound[OF run] obtain m1 where "logged (stateOf res) = logged init @ m1"
    by (auto simp: laterRound_def)
  then have l: "logged (stateOf res) = logs0 @ (DebugRequests allUrls # m1)"
    by (simp add: init_def initialState_def)
  show ?thesis
  proof (cases res)
    case (Inl thrown)
    with assms Inr p run l show ?thesis
      by (auto simp: fetchAllUncached_def init_def[symmetric] stateOf_def)
  next
    case (Inr st)
    from finalize_keeps_log[of S opts requests st] obtain m2
      where "logs (finalize S opts requests st) = logged st @ m2" by blast
    with assms \<open>prepareCall C S opts requests = Inr prepared\<close> p run l Inr show ?thesis
      by (auto simp: fetchAllUncached_def init_def[symmetric] stateOf_def)
  qed
qed

text \<open>
  C8. With a non-empty cache key and a positive TTL: a cache entry that decodes is
  returned as decoded, with no batch fetched, no sleep and nothing logged; an entry that
  fails to decode is logged (the log of whatever the call returns starts with that entry)
  and the call goes on as it does after a miss (the third conjunct), the log entry apart;
  and when no error is to be raised at the end and the cache write fails, the failure is
  logged and the response array is returned.
\<close>

theorem cache_errors_never_fatal:
  "(cacheKey opts = Some k \<and> k \<noteq> [] \<and> cacheTtl opts = Some ttl \<and> 0 < ttl
      \<and> cacheGet S k = Some cacheEntry \<and> jsonParse S cacheEntry = Some v \<longrightarrow>
      fetchAll fuel C S opts requests now
        = Some \<lparr>outcome = Inr (FromCache v), batches = [], sleeps = [], logs = []\<rparr>)
   \<and> (cacheKey opts = Some k \<and> k \<noteq> [] \<and> cacheTtl opts = Some ttl \<and> 0 < ttl
      \<and> cacheGet S k = Some cacheEntry \<and> jsonParse S cacheEntry = None \<longrightarrow>
      fetchAll fuel C S opts requests now
        = fetchAllUncached fuel C S opts requests now [CacheParseFailed k]
      \<and> (\<forall>r. fetchAll fuel C S opts requests now = Some r
             \<longrightarrow> (\<exists>more. logs r = CacheParseFailed k # more)))
   \<and> (cacheKey opts = Some k \<and> k \<noteq> [] \<and> cacheTtl opts = Some ttl \<and> 0 < ttl
      \<and> cacheGet S k = None \<longrightarrow>
      fetchAll fuel C S opts requests now = fetchAllUncached fuel C S opts requests now [])
   \<and> (cacheKey opts = Some k \<and> k \<noteq> [] \<and> cacheTtl opts = Some ttl \<and> 0 < ttl
      \<and> checkFailedRequests opts requests (responseContents st) = None
      \<and> cacheWriteFails S opts (responseContents st) \<longrightarrow>
      finalize S opts requests st
        = \<lparr>outcome = Inr (Fetched (responseContents st)), batches = fetched st,
            sleeps = slept st, logs = logged st @ [CacheSaveFailed k]\<rparr>)"
proof -
  have failed: "fetchAll fuel C S opts requests now
        = fetchAllUncached fuel C S opts requests now [CacheParseFailed k]
      \<and> (\<forall>r. fetchAll fuel C S opts requests now = Some r
             \<longrightarrow> (\<exists>more. logs r = CacheParseFailed k # more))"
    if a: "cacheKey opts = Some k \<and> k \<noteq> [] \<and> cacheTtl opts = Some ttl \<and> 0 < ttl
      \<and> cacheGet S k = Some cacheEntry \<and> jsonParse S cacheEntry = None"
  proof -
    from a have e: "fetchAll fuel C S opts requests now
        = fetchAllUncached fuel C S opts requests now [CacheParseFailed k]"
      by (simp add: fetchAll_def readCache_def cacheEnabled_def truthyText_def cacheKeyText_def)
    moreover have "\<exists>more. logs r = CacheParseFailed k # more"
      if "fetchAll fuel C S opts requests now = Some r" for r
      using fetchAllUncached_keeps_log[of fuel C S opts requests now "[CacheParseFailed k]" r]
        that e by simp
    ultimately show ?thesis by blast
  qed
  have hit: "fetchAll fuel C S opts requests now
        = Some \<lparr>outcome = Inr (FromCache v), batches = [], sleeps = [], logs = []\<rparr>"
    if "cacheKey opts = Some k \<and> k \<noteq> [] \<and> cacheTtl opts = Some ttl \<and> 0 < ttl
      \<and> cacheGet S k = Some cacheEntry \<and> jsonParse S cacheEntry = Some v"
    using that
    by (simp add: fetchAll_def readCache_def cacheEnabled_def truthyText_def cacheKeyText_def)
  have miss: "fetchAll fuel C S opts requests now = fetchAllUncached fuel C S opts requests now []"
    if "cacheKey opts = Some k \<and> k \<noteq> [] \<and> cacheTtl opts = Some ttl \<and> 0 < ttl
      \<and> cacheGet S k = None"
    using that
    by (simp add: fetchAll_def readCache_def cacheEnabled_def truthyText_def cacheKeyText_def)
  have unsaved: "finalize S opts requests st
        = \<lparr>outcome = Inr (Fetched (responseContents st)), batches = fetched st,
            sleeps = slept st, logs = logged st @ [CacheSaveFailed k]\<rparr>"
    if "cacheKey opts = Some k \<and> k \<noteq> [] \<and> cacheTtl opts = Some ttl \<and> 0 < ttl
      \<and> checkFailedRequests opts requests (responseContents st) = None
      \<and> cacheWriteFails S opts (responseContents st)"
    using that
    by (simp add: finalize_def cacheEnabled_def truthyText_def cacheKeyText_def)
  from hit failed miss unsaved show ?thesis
    by blast
qed

theorem cache_errors_never_fatal_witness:
  \<open>fetchAll 0 (exampleConfig (Some 600))
      ((exampleServices (\<lambda>r u. (200, versionBody)))
         \<lparr>cacheGet := (\<lambda>k. Some ''[{"value":"5.0.0"}]'')\<rparr>)
      ((exampleOptions False)\<lparr>cacheKey := Some ''sites'', cacheTtl := Some 60\<rparr>)
      [versionRequest] 0
    = Some \<lparr>outcome = Inr (FromCache (JArr [versionPayload])),
            batches = [], sleeps = [], logs = []\<rparr>
   \<and> fetchAll 5 (exampleConfig (Some 600))
      ((exampleServices (\<lambda>r u. (200, versionBody)))\<lparr>cacheGet := (\<lambda>k. Some ''<html>'')\<rparr>)
      ((exampleOptions False)\<lparr>cacheKey := Some ''sites'', cacheTtl := Some 60\<rparr>)
      [versionRequest] 0
    = Some \<lparr>outcome = Inr (Fetched [Some versionPayload]),
            batches = [[versionQuery]], sleeps = [],
            logs = [CacheParseFailed ''sites'', DebugRequests [versionQuery]]\<rparr>
   \<and> fetchAll 5 (exampleConfig (Some 600))
      ((exampleServices (\<lambda>r u. (200, versionBody)))\<lparr>cachePutThrows := (\<lambda>k text ttl. True)\<rparr>)
      ((exampleOptions False)\<lparr>cacheKey := Some ''sites'', cacheTtl := Some 60\<rparr>)
      [versionRequest] 0
    = Some \<lparr>outcome = Inr (Fetched [Some versionPayload]),
            batches = [[versionQuery]], sleeps = [],
            logs = [DebugRequests [versionQuery], CacheSaveFailed ''sites'']\<rparr>\<close>
proof -
  define opts where "opts = (exampleOptions False)\<lparr>cacheKey := Some ''sites'', cacheTtl := Some 60\<rparr>"
  have o: "cacheKey opts = Some ''sites''" "cacheTtl opts = Some 60"
    by (simp_all add: opts_def exampleOptions_def)
  have hit: \<open>jsonParse ((exampleServices (\<lambda>r u. (200, versionBody)))
         \<lparr>cacheGet := (\<lambda>k. Some ''[{"value":"5.0.0"}]'')\<rparr>) ''[{"value":"5.0.0"}]''
      = Some (JArr [versionPayload])\<close>
    by code_simp
  have garbled: "jsonParse ((exampleServices (\<lambda>r u. (200, versionBody)))
         \<lparr>cacheGet := (\<lambda>k. Some ''<html>'')\<rparr>) ''<html>'' = None"
    by code_simp
  have uncached: "fetchAllUncached 5 (exampleConfig (Some 600))
      ((exampleServices (\<lambda>r u. (200, versionBody)))\<lparr>cacheGet := (\<lambda>k. Some ''<html>'')\<rparr>)
      opts [versionRequest] 0 [CacheParseFailed ''sites'']
    = Some \<lparr>outcome = Inr (Fetched [Some versionPayload]),
            batches = [[versionQuery]], sleeps = [],
            logs = [CacheParseFailed ''sites'', DebugRequests [versionQuery]]\<rparr>"
    unfolding opts_def by code_simp
  have written: "fetchAll 5 (exampleConfig (Some 600))
      ((exampleServices (\<lambda>r u. (200, versionBody)))\<lparr>cachePutThrows := (\<lambda>k text ttl. True)\<rparr>)
      opts [versionRequest] 0
    = Some \<lparr>outcome = Inr (Fetched [Some versionPayload]),
            batches = [[versionQuery]], sleeps = [],
            logs = [DebugRequests [versionQuery], CacheSaveFailed ''sites'']\<rparr>"
    unfolding opts_def by code_simp
  from cache_errors_never_fatal [of opts "''sites''" 60
      \<open>(exampleServices (\<lambda>r u. (200, versionBody)))
         \<lparr>cacheGet := (\<lambda>k. Some ''[{"value":"5.0.0"}]'')\<rparr>\<close>
      \<open>''[{"value":"5.0.0"}]''\<close> "JArr [versionPayload]" 0 "exampleConfig (Some 600)"
      "[versionRequest]" 0] o hit
  have 1: \<open>fetchAll 0 (exampleConfig (Some 600))
      ((exampleServices (\<lambda>r u. (200, versionBody)))
         \<lparr>cacheGet := (\<lambda>k. Some ''[{"value":"5.0.0"}]'')\<rparr>) opts [versionRequest] 0
    = Some \<lparr>outcome = Inr (FromCache (JArr [versionPayload])),
            batches = [], sleeps = [], logs = []\<rparr>\<close>
    by simp
  from cache_errors_never_fatal [of opts "''sites''" 60
      "(exampleServices (\<lambda>r u. (200, versionBody)))\<lparr>cacheGet := (\<lambda>k. Some ''<html>'')\<rparr>"
      "''<html>''" JNull 5 "exampleConfig (Some 600)" "[versionRequest]" 0] o garbled uncached
  have 2: "fetchAll 5 (exampleConfig (Some 600))
      ((exampleServices (\<lambda>r u. (200, versionBody)))\<lparr>cacheGet := (\<lambda>k. Some ''<html>'')\<rparr>)
      opts [versionRequest] 0
    = Some \<lparr>outcome = Inr (Fetched [Some versionPayload]),
            batches = [[versionQuery]], sleeps = [],
            logs = [CacheParseFailed ''sites'', DebugRequests [versionQuery]]\<rparr>"
    by simp
  from 1 2 written show ?thesis
    unfolding opts_def by blast
qed

subsection \<open>Retry limit zero\<close>

lemma loop_not_entered:
  assumes "API_REQUEST_RETRY_LIMIT_IN_SECS C = 0" and "clock st = now"
  shows "fetchLoop fuel C S opts now st = Some (Inr st)"
  using assms by (cases fuel) (simp_all add: loopCondition_def)

lemma errorResponses_Nil [simp]: "errorResponses [] = []"
  by (simp add: errorResponses_def List.map_filter_def)

lemma zero_when_absent:
  "envApiRequestRetryLimitInSecs C = None \<Longrightarrow> API_REQUEST_RETRY_LIMIT_IN_SECS C = 0"
  by (simp add: API_REQUEST_RETRY_LIMIT_IN_SECS_def orZero_def)

lemma those_None_iff: "those (map f xs) = None \<longleftrightarrow> (\<exists>x\<in>set xs. f x = None)"
  by (induction xs) (auto split: option.splits)

lemma extractBasicAuthFromUrl_throws:
  "extractBasicAuthFromUrl S u = Inl thrown \<Longrightarrow> thrown = URIError"
  by (auto simp: extractBasicAuthFromUrl_def split: option.splits if_splits prod.splits)

text \<open>
  What leaves the preparation of a call: the error of the missing base URL, the
  \<open>URIError\<close> of decoding the credentials in the base URL, or the \<open>URIError\<close> of
  encoding a parameter value, in this order; with none of them, the loop is reached.
\<close>

lemma prepareCall_cases:
  "prepareCall C S opts requests =
     (if \<not> truthyText (orElse (instanceUrl opts) (userUrl S)) then Inl NoBaseUrl
      else if isl (extractBasicAuthFromUrl S
                     (stripTail (textOrNull (orElse (instanceUrl opts) (userUrl S)))
                        @ ''/index.php?''))
              \<or> (\<exists>req\<in>set requests. buildQuery C S req = None)
      then Inl URIError
      else Inr (prod.swap (projr (extractBasicAuthFromUrl S
                     (stripTail (textOrNull (orElse (instanceUrl opts) (userUrl S)))
                        @ ''/index.php?''))),
                the (those (map (buildQuery C S) requests))))"
proof (cases "extractBasicAuthFromUrl S
                (stripTail (textOrNull (orElse (instanceUrl opts) (userUrl S))) @ ''/index.php?'')")
  case (Inl thrown)
  then have "thrown = URIError" by (rule extractBasicAuthFromUrl_throws)
  with Inl show ?thesis by (simp add: prepareCall_def)
next
  case (Inr found)
  obtain headersFound urlWithoutAuth where f: "found = (headersFound, urlWithoutAuth)"
    by (cases found)
  show ?thesis
  proof (cases "those (map (buildQuery C S) requests)")
    case None
    then have "\<exists>req\<in>set requests. buildQuery C S req = None" by (simp add: those_None_iff)
    with Inr f None show ?thesis by (simp add: prepareCall_def)
  next
    case (Some allUrls)
    then have "\<not> (\<exists>req\<in>set requests. buildQuery C S req = None)"
      using those_None_iff[of "buildQuery C S" requests] by simp
    with Inr f Some show ?thesis by (auto simp: prepareCall_def)
  qed
qed

lemma credentials_extracted:
  "extractBasicAuthFromUrl (exampleServices answers) ''https://user:pw@matomo.example/index.php?''
   = Inr ([(''Authorization'', ''Basic dXNlcjpwdw=='')], ''https://matomo.example/index.php?'')"
  by code_simp

text \<open>
  C10, the claim as stated fails: with the retry limit zero, one request, no cache and no
  instance URL in the options or the user properties, the call does not return an array;
  it raises the error of the missing base URL.
\<close>

theorem no_base_url_counterexample:
  "fetchAll 5 (exampleConfig None) ((exampleServices (\<lambda>r u. (200, versionBody)))\<lparr>userUrl := None\<rparr>)
      (exampleOptions False) [versionRequest] 0
   = Some \<lparr>outcome = Inl NoBaseUrl, batches = [], sleeps = [], logs = []\<rparr>"
  by code_simp

text \<open>
  So does a base URL whose credentials do not decode: for the user name \<open>us%er\<close> the
  runtime's \<open>decodeURIComponent\<close> throws, and the error leaves the call before the loop.
\<close>

lemma malformed_credentials_thrown:
  "fetchAll 5 (exampleConfig None)
      ((exampleServices (\<lambda>r u. (200, versionBody)))
         \<lparr>decodeURIComponent := (\<lambda>t. if t = ''us%er'' then None else Some t)\<rparr>)
      ((exampleOptions False)\<lparr>instanceUrl := Some ''https://us%er:pw@matomo.example''\<rparr>)
      [versionRequest] 0
   = Some \<lparr>outcome = Inl URIError, batches = [], sleeps = [], logs = []\<rparr>"
  by code_simp

text \<open>
  C10, amended: with the retry limit zero and no usable cache hit, the call enters no
  round: it fetches no batch and does not sleep, whatever the requests and the fuel. What
  it returns is decided before the loop: the error of the missing base URL when no
  instance URL is configured (in the options or the user properties); else a
  \<open>URIError\<close> when the credentials in the base URL do not decode or a parameter value of
  a request does not encode; else the empty array.
\<close>

theorem zero_retry_limit_no_round:
  assumes "API_REQUEST_RETRY_LIMIT_IN_SECS C = 0"
    and "fst (readCache S opts) = None"
  shows "\<exists>r. fetchAll fuel C S opts requests now = Some r
           \<and> batches r = [] \<and> sleeps r = []
           \<and> outcome r =
               (if \<not> truthyText (orElse (instanceUrl opts) (userUrl S)) then Inl NoBaseUrl
                else if isl (extractBasicAuthFromUrl S
                               (stripTail (textOrNull (orElse (instanceUrl opts) (userUrl S)))
                                  @ ''/index.php?''))
                        \<or> (\<exists>req\<in>set requests. buildQuery C S req = None)
                then Inl URIError
                else Inr (Fetched []))"
proof (cases "prepareCall C S opts requests")
  case (Inl thrown)
  with assms(2) have "fetchAll fuel C S opts requests now
      = Some \<lparr>outcome = Inl thrown, batches = [], sleeps = [], logs = snd (readCache S opts)\<rparr>"
    by (simp add: fetchAll_def fetchAllUncached_def)
  moreover from Inl have "(if \<not> truthyText (orElse (instanceUrl opts) (userUrl S)) then Inl NoBaseUrl
                else if isl (extractBasicAuthFromUrl S
                               (stripTail (textOrNull (orElse (instanceUrl opts) (userUrl S)))
                                  @ ''/index.php?''))
                        \<or> (\<exists>req\<in>set requests. buildQuery C S req = None)
                then Inl URIError
                else Inr (Fetched [])) = Inl thrown"
    unfolding prepareCall_cases[of C S opts requests] by (auto split: if_splits)
  ultimately show ?thesis by simp
next
  case (Inr prepared)
  obtain target allUrls where p: "prepared = (target, allUrls)" by (cases prepared)
  define st where "st = initialState target allUrls now (snd (readCache S opts))"
  have "clock st = now" by (simp add: st_def initialState_def)
  from loop_not_entered[OF assms(1) this]
  have "fetchLoop fuel C S opts now st = Some (Inr st)" .
  moreover have "responseContents st = []" "fetched st = []" "slept st = []"
    by (simp_all add: st_def initialState_def)
  ultimately have "\<exists>r. fetchAll fuel C S opts requests now = Some r
           \<and> batches r = [] \<and> sleeps r = [] \<and> outcome r = Inr (Fetched [])"
    using Inr p assms(2)
    by (simp add: fetchAll_def fetchAllUncached_def st_def[symmetric] finalize_def
        checkFailedRequests_def Let_def)
  moreover from Inr have "\<not> (\<not> truthyText (orElse (instanceUrl opts) (userUrl S)))"
    "\<not> (isl (extractBasicAuthFromUrl S
                               (stripTail (textOrNull (orElse (instanceUrl opts) (userUrl S)))
                                  @ ''/index.php?''))
                        \<or> (\<exists>req\<in>set requests. buildQuery C S req = None))"
    unfolding prepareCall_cases[of C S opts requests] by (auto split: if_splits)
  ultimately show ?thesis by auto
qed

theorem zero_retry_limit_no_round_witness:
  "\<exists>r. fetchAll 5 (exampleConfig None) (exampleServices (\<lambda>r u. (200, versionBody)))
          (exampleOptions False) [versionRequest] 0 = Some r
      \<and> batches r = [] \<and> sleeps r = [] \<and> outcome r = Inr (Fetched [])"
proof -
  have limit: "API_REQUEST_RETRY_LIMIT_IN_SECS (exampleConfig None) = 0"
    by (simp add: API_REQUEST_RETRY_LIMIT_IN_SECS_def orZero_def exampleConfig_def)
  have miss: "fst (readCache (exampleServices (\<lambda>r u. (200, versionBody))) (exampleOptions False)) = None"
    by (simp add: readCache_def cacheEnabled_def exampleOptions_def truthyText_def)
  have url: "truthyText (orElse (instanceUrl (exampleOptions False))
      (userUrl (exampleServices (\<lambda>r u. (200, versionBody)))))"
    by (simp add: truthyText_def orElse_def exampleOptions_def exampleServices_def)
  have credentials: "\<not> isl (extractBasicAuthFromUrl (exampleServices (\<lambda>r u. (200, versionBody)))
      (stripTail (textOrNull (orElse (instanceUrl (exampleOptions False))
         (userUrl (exampleServices (\<lambda>r u. (200, versionBody))))))
       @ ''/index.php?''))"
    by code_simp
  have encoded: "buildQuery (exampleConfig None) (exampleServices (\<lambda>r u. (200, versionBody)))
      versionRequest = Some versionQuery"
    by code_simp
  from zero_retry_limit_no_round [OF limit miss, of 5 "[versionRequest]" 0] url credentials encoded
  show ?thesis by simp
qed

end
